theory Spec2Isabelle
  imports Complex_Main
begin

section \<open>cpinutil.py: building a constant-pH input record from a topology\<close>

text \<open>
  The script \<^verbatim>\<open>cpinutil.py\<close> (Python 2) reads its command line, asks the modules
  \<^verbatim>\<open>cpin_utilities\<close> and \<^verbatim>\<open>cpin_data\<close> for the residues of a topology and for the
  reference data of each titrated residue name, and prints a namelist to standard output.
  The two modules are not part of the sources; what they return is a parameter of the model
  (the record \<open>env\<close>), and they are taken to write nothing to standard output. Standard
  output and the error stream are lists of lines, in the order the script prints them. Every
  way the process can end is a value of \<open>outcome\<close>. The built-in \<^verbatim>\<open>float\<close> is a parameter
  as well; \<^verbatim>\<open>int\<close>, \<^verbatim>\<open>str\<close> of an integer and the string methods the script calls are
  defined below.
\<close>

subsection \<open>Python strings\<close>

abbreviation quote :: char where
  "quote \<equiv> CHR 0x27"

definition is_space :: "char \<Rightarrow> bool" where
  \<comment> \<open>the characters of \<^verbatim>\<open>string.whitespace\<close>\<close>
  "is_space c = (c = CHR '' '' \<or> c = CHR 0x09 \<or> c = CHR 0x0A \<or> c = CHR 0x0B
                 \<or> c = CHR 0x0C \<or> c = CHR 0x0D)"

definition strip :: "string \<Rightarrow> string" where
  \<comment> \<open>\<^verbatim>\<open>s.strip()\<close>\<close>
  "strip s = rev (dropWhile is_space (rev (dropWhile is_space s)))"

fun split_by :: "(char \<Rightarrow> bool) \<Rightarrow> string \<Rightarrow> string list" where
  "split_by p [] = [[]]"
| "split_by p (c # cs) =
     (if p c then [] # split_by p cs
      else (case split_by p cs of [] \<Rightarrow> [[c]] | w # ws \<Rightarrow> (c # w) # ws))"

definition split_comma :: "string \<Rightarrow> string list" where
  \<comment> \<open>\<^verbatim>\<open>s.split(",")\<close>\<close>
  "split_comma s = split_by (\<lambda>c. c = CHR '','') s"

definition split_ws :: "string \<Rightarrow> string list" where
  \<comment> \<open>\<^verbatim>\<open>s.split()\<close>: the maximal runs of non-whitespace characters\<close>
  "split_ws s = filter (\<lambda>w. w \<noteq> []) (split_by is_space s)"

definition startswith :: "string \<Rightarrow> string \<Rightarrow> bool" where
  \<comment> \<open>\<^verbatim>\<open>s.startswith(p)\<close>\<close>
  "startswith s p = (take (length p) s = p)"

fun py_in :: "string \<Rightarrow> string \<Rightarrow> bool" where
  \<comment> \<open>\<^verbatim>\<open>sub in s\<close> on strings: \<open>sub\<close> occurs in \<open>s\<close> as a contiguous substring\<close>
  "py_in sub [] = (sub = [])"
| "py_in sub (c # cs) = (startswith (c # cs) sub \<or> py_in sub cs)"

function replace_del :: "string \<Rightarrow> string \<Rightarrow> string" where
  \<comment> \<open>\<^verbatim>\<open>string.replace(s, old, '')\<close>: the occurrences of \<open>old\<close>, found from the left
      without overlap, are deleted; the callers pass a non-empty \<open>old\<close>\<close>
  "replace_del [] old = []"
| "replace_del (c # cs) old =
     (if old \<noteq> [] \<and> startswith (c # cs) old
      then replace_del (drop (length old) (c # cs)) old
      else c # replace_del cs old)"
  by pat_completeness auto
termination
  by (relation "measure (\<lambda>(s, old). length s)") (auto simp: neq_Nil_conv)

function str_nat :: "nat \<Rightarrow> string" where
  "str_nat n =
     (if n < 10 then [char_of (48 + n)]
      else str_nat (n div 10) @ [char_of (48 + n mod 10)])"
  by pat_completeness auto
termination
  by (relation "measure id") auto

definition str_int :: "int \<Rightarrow> string" where
  \<comment> \<open>\<^verbatim>\<open>str(i)\<close> of an integer\<close>
  "str_int i = (if i < 0 then CHR ''-'' # str_nat (nat (- i)) else str_nat (nat i))"

definition is_digit :: "char \<Rightarrow> bool" where
  "is_digit c = (48 \<le> (of_char c :: nat) \<and> (of_char c :: nat) \<le> 57)"

definition digits_val :: "string \<Rightarrow> int" where
  "digits_val ds = foldl (\<lambda>v c. 10 * v + (int (of_char c) - 48)) 0 ds"

definition py_int :: "string \<Rightarrow> int option" where
  \<comment> \<open>\<^verbatim>\<open>int(s)\<close> of a string in Python 2: surrounding whitespace, an optional sign,
      whitespace again, decimal digits; \<open>None\<close> is the ValueError\<close>
  "py_int s =
     (let t = strip s;
          neg = (t \<noteq> [] \<and> hd t = CHR ''-'');
          ds = dropWhile is_space
                 (if t \<noteq> [] \<and> (hd t = CHR ''-'' \<or> hd t = CHR ''+'') then tl t else t)
      in if ds \<noteq> [] \<and> list_all is_digit ds
         then Some (if neg then - digits_val ds else digits_val ds)
         else None)"

datatype pyfloat = NaN | NegInf | Fin rat | PosInf

fun flt :: "pyfloat \<Rightarrow> pyfloat \<Rightarrow> bool" where
  \<comment> \<open>\<^verbatim>\<open>a < b\<close> on floats; every comparison with a NaN is false\<close>
  "flt NaN b = False"
| "flt a NaN = False"
| "flt a NegInf = False"
| "flt NegInf b = True"
| "flt PosInf b = False"
| "flt (Fin a) PosInf = True"
| "flt (Fin a) (Fin b) = (a < b)"

datatype exn = TypeError | IndexError | NameError | ValueError

definition py_get :: "'a list \<Rightarrow> int \<Rightarrow> exn + 'a" where
  \<comment> \<open>\<^verbatim>\<open>xs[i]\<close>: a negative index counts from the end, an index out of range raises\<close>
  "py_get xs i =
     (if 0 \<le> i \<and> i < int (length xs) then Inr (xs ! nat i)
      else if i < 0 \<and> - int (length xs) \<le> i then Inr (xs ! nat (int (length xs) + i))
      else Inl IndexError)"

subsection \<open>How a run ends\<close>

datatype outcome =
    Completed           \<comment> \<open>the script ran to its last line\<close>
  | SysExit             \<comment> \<open>\<^verbatim>\<open>sys.exit()\<close>, called without an argument\<close>
  | Usage               \<comment> \<open>Modelled from the spec: \<^verbatim>\<open>cpin_utilities.printusage\<close> is not in the
                            sources; the spec names usage printing with the exit of the process
                            among the collaborators, so the call ends the process\<close>
  | Uncaught exn        \<comment> \<open>an exception nobody catches: traceback\<close>

fun exit_status :: "outcome \<Rightarrow> int option" where
  \<comment> \<open>the status the interpreter hands to the operating system; that of \<open>Usage\<close> is
      decided inside \<^verbatim>\<open>cpin_utilities\<close>\<close>
  "exit_status Completed = Some 0"
| "exit_status SysExit = Some 0"
| "exit_status Usage = None"
| "exit_status (Uncaught e) = Some 1"

type_synonym fail = "string list \<times> outcome"
  \<comment> \<open>the lines written to the error stream on the way out, and how the process ends\<close>

record result =
  out :: "string list"
  err :: "string list"
  status :: outcome

subsection \<open>The line buffer\<close>

definition addOn :: "string \<Rightarrow> string \<Rightarrow> string list \<times> string" where
  \<comment> \<open>the lines printed by the call, and the line returned\<close>
  "addOn line toadd =
     (if length line + length toadd > 80 then ([line], '' '' @ toadd)
      else ([], line @ toadd))"

fun add_tokens :: "string \<Rightarrow> (fail + string) list \<Rightarrow> string list \<times> (fail + string)" where
  \<comment> \<open>a loop of \<^verbatim>\<open>line = addOn(line, toadd)\<close>; an item \<open>Inl f\<close> is an iteration that
      leaves the script instead of producing its token\<close>
  "add_tokens line [] = ([], Inr line)"
| "add_tokens line (Inl f # ts) = ([], Inl f)"
| "add_tokens line (Inr t # ts) =
     (case addOn line t of (p, l) \<Rightarrow>
        (case add_tokens l ts of (ps, r) \<Rightarrow> (p @ ps, r)))"

definition emit_field :: "string \<Rightarrow> (fail + string) list \<Rightarrow> string list \<times> fail option" where
  \<comment> \<open>\<^verbatim>\<open>line = prefix\<close>, the loop, \<^verbatim>\<open>print line\<close>\<close>
  "emit_field prefix toks =
     (case add_tokens prefix toks of
        (ps, Inr l) \<Rightarrow> (ps @ [l], None)
      | (ps, Inl f) \<Rightarrow> (ps, Some f))"

fun run_fields :: "(string \<times> (fail + string) list) list \<Rightarrow> string list \<times> fail option" where
  \<comment> \<open>the fields one after the other, up to the first that leaves the script\<close>
  "run_fields [] = ([], None)"
| "run_fields ((prefix, toks) # fs) =
     (case emit_field prefix toks of
        (ls, Some f) \<Rightarrow> (ls, Some f)
      | (ls, None) \<Rightarrow> (case run_fields fs of (ls', r) \<Rightarrow> (ls @ ls', r)))"

subsection \<open>The collaborators\<close>

type_synonym data = "string list list"
  \<comment> \<open>what \<^verbatim>\<open>cpin_data.getData\<close> returns for a residue name: one row per protonation
      state, a row being the energy, the proton count and one charge per atom. An entry
      stands for its \<^verbatim>\<open>str()\<close> rendering, the only way the script reads it.\<close>

record env =
  fileexists :: "string \<Rightarrow> int"
  residue_labels :: "string \<Rightarrow> string list"
    \<comment> \<open>\<^verbatim>\<open>getallresinfo(prmtop, 'RESIDUE_LABEL')\<close>\<close>
  residue_pointers :: "string \<Rightarrow> string list"
    \<comment> \<open>\<^verbatim>\<open>getallresinfo(prmtop, 'RESIDUE_POINTER')\<close>\<close>
  getbondiset :: "string \<Rightarrow> string"
  getData :: "string \<Rightarrow> int \<Rightarrow> data option"
    \<comment> \<open>\<open>None\<close> is the value \<^verbatim>\<open>-1\<close>\<close>
  py_float :: "string \<Rightarrow> pyfloat option"
    \<comment> \<open>the built-in \<^verbatim>\<open>float(s)\<close> on strings; \<open>None\<close> is the ValueError\<close>

subsection \<open>The command line\<close>

record opts =
  prmtop :: string
  igb :: string
  system_name :: string
  minpKa :: "string option"   \<comment> \<open>\<open>None\<close>: the default, the integer \<^verbatim>\<open>-100\<close>\<close>
  maxpKa :: "string option"   \<comment> \<open>\<open>None\<close>: the default, the integer \<^verbatim>\<open>100\<close>\<close>
  ignore_warn :: bool
  titrate_residues :: string
  resnums :: "string list"
  notresnums :: "string list"
  residue_states :: "string list"
  resname_spec :: bool
  nresname_spec :: bool
  resnum_spec :: bool
  nresnum_spec :: bool

definition titratable :: string where
  "titratable = ''AS4 GL4 HIP TYR LYS CYS''"

definition exp_pkas :: string where
  "exp_pkas = ''4.0 4.4 6.5 9.6 10.4 8.55''"

definition init_opts :: opts where
  "init_opts =
     \<lparr>prmtop = ''prmtop'', igb = '' '', system_name = ''Unknown'', minpKa = None,
      maxpKa = None, ignore_warn = False, titrate_residues = titratable, resnums = [],
      notresnums = [], residue_states = [], resname_spec = False, nresname_spec = False,
      resnum_spec = False, nresnum_spec = False\<rparr>"

definition msg_resname :: string where
  "msg_resname = ''Error: You cannot specify -notresname and -resname simultaneously!''"

definition msg_resnum :: string where
  "msg_resnum = ''Error: You cannot specify -notresnum and -resnum simultaneously!''"

definition cmdline_fail :: fail where
  \<comment> \<open>the handler of the IndexError raised by \<^verbatim>\<open>sys.argv[x+1]\<close>\<close>
  "cmdline_fail = ([''Error: Command line error!''], Usage)"

definition flag_values :: "string list \<Rightarrow> string list" where
  \<comment> \<open>the \<^verbatim>\<open>while\<close> loop after a list-valued flag: the arguments up to the next one that
      starts with a dash, each split at commas, the pieces stripped, empty pieces dropped\<close>
  "flag_values rest =
     concat (map (\<lambda>a. filter (\<lambda>d. d \<noteq> []) (map strip (split_comma a)))
                 (takeWhile (\<lambda>a. \<not> startswith a ''-'') rest))"

definition arg_step :: "string \<Rightarrow> string list \<Rightarrow> opts \<Rightarrow> fail + opts" where
  \<comment> \<open>one iteration of \<^verbatim>\<open>for x in range(1, len(sys.argv))\<close>: \<open>a\<close> is \<^verbatim>\<open>sys.argv[x]\<close>,
      \<open>rest\<close> what follows it. The assignments to \<^verbatim>\<open>x\<close> inside the body are lost when the
      \<^verbatim>\<open>for\<close> takes its next value, so every argument is looked at as a flag.\<close>
  "arg_step a rest st =
     (if a = ''-p'' then
        (case rest of [] \<Rightarrow> Inl cmdline_fail | v # _ \<Rightarrow> Inr (st\<lparr>prmtop := v\<rparr>))
      else if a = ''-igb'' then
        (case rest of [] \<Rightarrow> Inl cmdline_fail | v # _ \<Rightarrow> Inr (st\<lparr>igb := v\<rparr>))
      else if a = ''-system'' then
        (case rest of [] \<Rightarrow> Inl cmdline_fail | v # _ \<Rightarrow> Inr (st\<lparr>system_name := v\<rparr>))
      else if a = ''-minpKa'' then
        (case rest of [] \<Rightarrow> Inl cmdline_fail | v # _ \<Rightarrow> Inr (st\<lparr>minpKa := Some v\<rparr>))
      else if a = ''-maxpKa'' then
        (case rest of [] \<Rightarrow> Inl cmdline_fail | v # _ \<Rightarrow> Inr (st\<lparr>maxpKa := Some v\<rparr>))
      else if a = ''--ignore-warnings'' then Inr (st\<lparr>ignore_warn := True\<rparr>)
      else if a = ''-resname'' then
        (if nresname_spec st then Inl ([msg_resname], SysExit)
         else Inr (st\<lparr>resname_spec := True,
                       titrate_residues := concat (map (\<lambda>d. d @ '' '') (flag_values rest))\<rparr>))
      else if a = ''-notresname'' then
        (if resname_spec st then Inl ([msg_resname], SysExit)
         else Inr (st\<lparr>nresname_spec := True,
                       titrate_residues := foldl replace_del (titrate_residues st) (flag_values rest)\<rparr>))
      else if a = ''-resnum'' then
        (if nresnum_spec st then Inl ([msg_resnum], SysExit)
         else Inr (st\<lparr>resnum_spec := True, resnums := resnums st @ flag_values rest\<rparr>))
      else if a = ''-notresnum'' then
        (if resnum_spec st then Inl ([msg_resnum], SysExit)
         else Inr (st\<lparr>nresnum_spec := True, notresnums := notresnums st @ flag_values rest\<rparr>))
      else if a = ''-states'' then
        Inr (st\<lparr>residue_states := residue_states st @ flag_values rest\<rparr>)
      else Inr st)"

fun parse_loop :: "string list \<Rightarrow> opts \<Rightarrow> fail + opts" where
  "parse_loop [] st = Inr st"
| "parse_loop (a # rest) st =
     (case arg_step a rest st of Inl f \<Rightarrow> Inl f | Inr st' \<Rightarrow> parse_loop rest st')"

definition parse_args :: "string list \<Rightarrow> fail + opts" where
  "parse_args argv = parse_loop (drop 1 argv) init_opts"

subsection \<open>Conversion of the arguments\<close>

record params =
  igb_n :: int
  minpKa_f :: pyfloat
  maxpKa_f :: pyfloat
  resnums_n :: "int list"
  notresnums_n :: "int list"
  states_n :: "int list"

definition to_float :: "env \<Rightarrow> rat \<Rightarrow> string option \<Rightarrow> pyfloat option" where
  \<comment> \<open>\<^verbatim>\<open>float(v)\<close> of the integer default or of the string of the command line\<close>
  "to_float e dflt v = (case v of None \<Rightarrow> Some (Fin dflt) | Some s \<Rightarrow> py_float e s)"

definition msg_types :: string where
  "msg_types = ''Error: Make sure you have the right data types for the right arguments!''"

definition convert :: "env \<Rightarrow> opts \<Rightarrow> string \<Rightarrow> fail + params" where
  \<comment> \<open>lines 181 to 196. The handler of the ValueError calls \<^verbatim>\<open>utils.printusage()\<close>, and
      no name \<^verbatim>\<open>utils\<close> exists: a NameError ends the process. The exclude list is converted
      only when the include list is empty; left as strings it equals no number, which is
      the empty list of numbers to the filter that reads it.\<close>
  "convert e st igb_s =
     (case (if resnums st \<noteq> [] then those (map py_int (resnums st)) else Some [],
            if resnums st = [] then those (map py_int (notresnums st)) else Some [],
            those (map py_int (residue_states st)),
            py_int igb_s, to_float e 100 (maxpKa st), to_float e (- 100) (minpKa st)) of
        (Some rn, Some nrn, Some sts, Some g, Some hi, Some lo) \<Rightarrow>
          Inr \<lparr>igb_n = g, minpKa_f = lo, maxpKa_f = hi, resnums_n = rn,
               notresnums_n = nrn, states_n = sts\<rparr>
      | _ \<Rightarrow> Inl ([msg_types], Uncaught NameError))"

subsection \<open>The pKa filter\<close>

fun pka_filter :: "env \<Rightarrow> pyfloat \<Rightarrow> pyfloat \<Rightarrow> (string \<times> string) list \<Rightarrow> exn option" where
  \<comment> \<open>lines 203 to 209, over the built-in names and pKa values. For a pKa outside the
      bounds line 208 asks whether a float is \<^verbatim>\<open>in\<close> the string of names, which raises
      a TypeError; line 209 is never reached. \<open>None\<close>: the loop ends and has changed nothing.\<close>
  "pka_filter e lo hi [] = None"
| "pka_filter e lo hi ((name, p) # rest) =
     (case py_float e (strip p) of
        None \<Rightarrow> Some ValueError
      | Some v \<Rightarrow> if flt v lo \<or> flt hi v then Some TypeError else pka_filter e lo hi rest)"

subsection \<open>Selection of the residues\<close>

type_synonym sel = "(int \<times> string) list"
  \<comment> \<open>\<^verbatim>\<open>titrated_residue_nums\<close>, each number with \<^verbatim>\<open>prmtop_residues[number-1]\<close>, the name
      read when the number was selected; the list of names never changes, so every later
      read of that entry gives this name\<close>

definition msg_none :: string where
  "msg_none = ''Error: No titratable residues conform to your criteria!''"

definition msg_big :: "string \<Rightarrow> string list" where
  "msg_big path = [''Error: You specified a residue greater than the number of '',
                  ''       residues in the topology file '' @ path]"

definition msg_nottitr :: "int \<Rightarrow> string \<Rightarrow> string" where
  "msg_nottitr n nm = ''Error: Residue '' @ str_int n @ '' is a '' @ nm @
                      ''. This is not in the list of titratable residues!''"

fun select_listed :: "string \<Rightarrow> string list \<Rightarrow> string \<Rightarrow> int list \<Rightarrow> fail + sel" where
  \<comment> \<open>lines 219 to 231\<close>
  "select_listed path labels tr [] = Inr []"
| "select_listed path labels tr (n # ns) =
     (if n > int (length labels) then Inl (msg_big path, SysExit)
      else (case py_get labels (n - 1) of
              Inl ex \<Rightarrow> Inl ([], Uncaught ex)
            | Inr nm \<Rightarrow>
                if \<not> py_in nm tr then Inl ([msg_nottitr n nm], SysExit)
                else (case select_listed path labels tr ns of
                        Inl f \<Rightarrow> Inl f
                      | Inr s \<Rightarrow> Inr ((n, nm) # s))))"

fun scan_from :: "int \<Rightarrow> string list \<Rightarrow> string \<Rightarrow> sel" where
  \<comment> \<open>lines 235 to 238; \<open>n\<close> is \<^verbatim>\<open>x+1\<close>\<close>
  "scan_from n [] tr = []"
| "scan_from n (nm # rest) tr =
     (if py_in nm tr then (n, nm) # scan_from (n + 1) rest tr else scan_from (n + 1) rest tr)"

fun drop_num :: "int \<Rightarrow> sel \<Rightarrow> sel" where
  \<comment> \<open>lines 249 to 252: the first entry with this number is popped\<close>
  "drop_num n [] = []"
| "drop_num n ((m, nm) # s) = (if n = m then s else (m, nm) # drop_num n s)"

definition select_residues :: "string \<Rightarrow> string list \<Rightarrow> string \<Rightarrow> int list \<Rightarrow> int list \<Rightarrow> fail + sel" where
  \<comment> \<open>lines 219 to 252: selection, the test for an empty selection, then the exclude list\<close>
  "select_residues path labels tr rns nrns =
     (case (if rns \<noteq> [] then select_listed path labels tr rns
            else Inr (scan_from 1 labels tr)) of
        Inl f \<Rightarrow> Inl f
      | Inr s \<Rightarrow> if s = [] then Inl ([msg_none], SysExit)
                 else Inr (foldl (\<lambda>s n. drop_num n s) s nrns))"

definition dedup_names :: "sel \<Rightarrow> string list" where
  \<comment> \<open>lines 258 to 269\<close>
  "dedup_names s =
     foldl (\<lambda>names (n, nm). if nm \<in> set names then names else names @ [nm]) [] s"

definition msg_states :: "nat \<Rightarrow> nat \<Rightarrow> string" where
  "msg_states a b = ''Error: You specified '' @ str_int (int a) @ '' states for '' @
                    str_int (int b) @ '' titrated residues!''"

definition initial_states :: "int list \<Rightarrow> sel \<Rightarrow> fail + int list" where
  \<comment> \<open>lines 274 to 281\<close>
  "initial_states sts s =
     (if sts \<noteq> [] \<and> length sts \<noteq> length s
      then Inl ([msg_states (length sts) (length s)], SysExit)
      else if sts = [] then Inr (replicate (length s) 0)
      else Inr sts)"

subsection \<open>The record\<close>

definition msg_lookup :: string where
  "msg_lookup = ''Error: Couldn'' @ [quote] @ ''t get data from cpin_data.py!''"

definition lookup_fail :: fail where
  "lookup_fail = ([msg_lookup], SysExit)"

definition msg_range :: string where
  "msg_range = ''Error: Residue states must range from 0 to num_states - 1 for each residue!''"

definition raise :: "exn \<Rightarrow> fail + string" where
  "raise ex = Inl ([], Uncaught ex)"

definition chrgdat_tokens :: "data option list \<Rightarrow> (fail + string) list" where
  \<comment> \<open>lines 300 to 310\<close>
  "chrgdat_tokens resdata =
     concat (map (\<lambda>d. case d of
                         None \<Rightarrow> [Inl lookup_fail]
                       | Some rows \<Rightarrow> map (\<lambda>v. Inr (v @ '','')) (concat (map (drop 2) rows)))
                 resdata)"

definition column_tokens :: "int \<Rightarrow> data list \<Rightarrow> (fail + string) list" where
  \<comment> \<open>lines 318 to 323 with \<open>i = 1\<close>, lines 392 to 395 with \<open>i = 0\<close>\<close>
  "column_tokens i ds =
     concat (map (map (\<lambda>row. case py_get row i of
                                Inl ex \<Rightarrow> raise ex
                              | Inr v \<Rightarrow> Inr (v @ '',''))) ds)"

definition resname_prefix :: string where
  "resname_prefix = '' RESNAME='' @ [quote] @ ''System: Unknown'' @ [quote] @ '',''"

definition resname_tokens :: "sel \<Rightarrow> (fail + string) list" where
  \<comment> \<open>lines 331 to 335\<close>
  "resname_tokens s =
     map (\<lambda>(n, nm). Inr ([quote] @ ''Residue: '' @ nm @ '' '' @ str_int n @ [quote] @ '','')) s"

definition resstate_tokens :: "(string \<times> data) list \<Rightarrow> sel \<Rightarrow> int list \<Rightarrow> (fail + string) list" where
  \<comment> \<open>lines 343 to 351; \<open>nd\<close> pairs \<^verbatim>\<open>titrated_residue_names[y]\<close> with \<^verbatim>\<open>resdata[y]\<close>\<close>
  "resstate_tokens nd s sts =
     map (\<lambda>((n, nm), st).
            if list_ex (\<lambda>(name, d). nm = name \<and> (st < 0 \<or> st \<ge> int (length d))) nd
            then Inl ([msg_range], SysExit)
            else Inr (str_int st @ '','')) (zip s sts)"

fun scan_offsets :: "string \<Rightarrow> (string \<times> data) list \<Rightarrow> int \<Rightarrow> int \<Rightarrow> exn + (int \<times> int \<times> (int \<times> int) option)" where
  \<comment> \<open>lines 368 to 375: \<^verbatim>\<open>startchrg\<close>, \<^verbatim>\<open>startst\<close> and, where the name is found, the
      \<^verbatim>\<open>natm\<close> and \<^verbatim>\<open>nst\<close> assigned before the \<^verbatim>\<open>break\<close>\<close>
  "scan_offsets nm [] c s = Inr (c, s, None)"
| "scan_offsets nm ((name, d) # nds) c s =
     (case d of
        [] \<Rightarrow> Inl IndexError
      | r # _ \<Rightarrow>
          if nm = name then Inr (c, s, Some (int (length r) - 2, int (length d)))
          else scan_offsets nm nds (c + (int (length r) - 2) * int (length d))
                                   (s + int (length d)))"

definition stateinf :: "nat \<Rightarrow> string \<Rightarrow> string \<Rightarrow> string" where
  "stateinf x field v = ''STATEINF('' @ str_int (int x) @ '')%'' @ field @ ''='' @ v @ '', ''"

fun stateinf_tokens :: "string list \<Rightarrow> (string \<times> data) list \<Rightarrow> nat \<Rightarrow> (int \<times> int) option \<Rightarrow> sel \<Rightarrow> (fail + string) list" where
  \<comment> \<open>lines 359 to 383; \<open>prev\<close> holds \<^verbatim>\<open>natm\<close> and \<^verbatim>\<open>nst\<close> as the iteration before left
      them, \<open>None\<close> while they are unbound\<close>
  "stateinf_tokens ptrs nd x prev [] = []"
| "stateinf_tokens ptrs nd x prev ((n, nm) # s) =
     (case py_get ptrs (n - 1) of
        Inl ex \<Rightarrow> [raise ex]
      | Inr holder \<Rightarrow>
          Inr (stateinf x ''FIRST_ATOM'' holder) #
          (case scan_offsets nm nd 0 0 of
             Inl ex \<Rightarrow> [raise ex]
           | Inr (startchrg, startst, found) \<Rightarrow>
               Inr (stateinf x ''FIRST_CHARGE'' (str_int startchrg)) #
               Inr (stateinf x ''FIRST_STATE'' (str_int startst)) #
               (case (case found of None \<Rightarrow> prev | Some a \<Rightarrow> Some a) of
                  None \<Rightarrow> [raise NameError]
                | Some (natm, nst) \<Rightarrow>
                    Inr (stateinf x ''NUM_ATOMS'' (str_int natm)) #
                    Inr (stateinf x ''NUM_STATES'' (str_int nst)) #
                    stateinf_tokens ptrs nd (Suc x) (Some (natm, nst)) s)))"

definition trescnt_line :: "sel \<Rightarrow> string" where
  "trescnt_line s = '' TRESCNT='' @ str_int (int (length s)) @ '',''"

definition record_fields :: "string list \<Rightarrow> string list \<Rightarrow> data option list \<Rightarrow> sel \<Rightarrow> int list \<Rightarrow> (string \<times> (fail + string) list) list" where
  \<comment> \<open>the accumulating fields, lines 298 to 397. The loop of CHRGDAT ends the script at
      the first name without data, so the later fields see data for every name.\<close>
  "record_fields ptrs names resdata s sts =
     ('' CHRGDAT='', chrgdat_tokens resdata) #
     (case those resdata of
        None \<Rightarrow> []
      | Some ds \<Rightarrow>
          [('' PROTCNT='', column_tokens 1 ds),
           (resname_prefix, resname_tokens s),
           ('' RESSTATE='', resstate_tokens (zip names ds) s sts),
           ('' '', stateinf_tokens ptrs (zip names ds) 0 None s),
           ('' STATENE='', column_tokens 0 ds)])"

definition emit :: "string list \<Rightarrow> string list \<Rightarrow> data option list \<Rightarrow> sel \<Rightarrow> int list \<Rightarrow> string list \<Rightarrow> result" where
  \<comment> \<open>lines 286 to 409; \<open>errs\<close> is what the error stream holds already\<close>
  "emit ptrs names resdata s sts errs =
     (case run_fields (record_fields ptrs names resdata s sts) of
        (ls, Some (msgs, oc)) \<Rightarrow>
          \<lparr>out = ''&CNSTPH'' # ls, err = errs @ msgs, status = oc\<rparr>
      | (ls, None) \<Rightarrow>
          \<lparr>out = ''&CNSTPH'' # ls @ [trescnt_line s, ''/''],
           err = errs @ [''CPin created!''], status = Completed\<rparr>)"

subsection \<open>The script\<close>

definition halt :: "string list \<Rightarrow> outcome \<Rightarrow> result" where
  \<comment> \<open>the process ends before the first line of the record\<close>
  "halt msgs oc = \<lparr>out = [], err = msgs, status = oc\<rparr>"

definition msg_igb :: string where
  "msg_igb = ''Warning: igb value not specified. igb = 5 used as default. Be sure to use this value for your constant pH simulations!''"

definition mbondi2 :: string where
  "mbondi2 = ''H(N)-modified Bondi radii (mbondi2)''"

definition msg_radius :: "string list" where
  "msg_radius =
     [''Error: mbondi2 radius set should be used for constant pH simulations. All reference energies were calculated'',
      ''       using these radii! Set --ignore-warnings to ignore this warning.'']"

definition msg_labels :: "string \<Rightarrow> string list" where
  "msg_labels path =
     [''Error: Could not find residue labels or pointers in '' @ path @ ''!'',
      ''       Check your prmtop file to make sure it is valid.'']"

definition finish :: "env \<Rightarrow> opts \<Rightarrow> result" where
  \<comment> \<open>lines 152 to 409, from the options the command line gave\<close>
  "finish e st =
     (if fileexists e (prmtop st) = - 1 then halt [] SysExit
      else
        let warn = (if igb st = '' '' \<and> \<not> ignore_warn st then [msg_igb] else []);
            igb_s = (if igb st = '' '' then ''5'' else igb st);
            labels = residue_labels e (prmtop st);
            ptrs = residue_pointers e (prmtop st)
        in
        if \<not> ignore_warn st \<and> getbondiset e (prmtop st) \<noteq> mbondi2
        then halt (warn @ msg_radius) SysExit
        else if labels = [] \<or> ptrs = [] then halt (warn @ msg_labels (prmtop st)) SysExit
        else
          (case convert e st igb_s of
             Inl (msgs, oc) \<Rightarrow> halt (warn @ msgs) oc
           | Inr p \<Rightarrow>
               (case pka_filter e (minpKa_f p) (maxpKa_f p)
                       (zip (split_ws titratable) (split_ws exp_pkas)) of
                  Some ex \<Rightarrow> halt warn (Uncaught ex)
                | None \<Rightarrow>
                    (case select_residues (prmtop st) labels (titrate_residues st)
                            (resnums_n p) (notresnums_n p) of
                       Inl (msgs, oc) \<Rightarrow> halt (warn @ msgs) oc
                     | Inr s \<Rightarrow>
                         (case initial_states (states_n p) s of
                            Inl (msgs, oc) \<Rightarrow> halt (warn @ msgs) oc
                          | Inr sts \<Rightarrow>
                              emit ptrs (dedup_names s)
                                (map (\<lambda>nm. getData e nm (igb_n p)) (dedup_names s))
                                s sts warn)))))"

definition run :: "env \<Rightarrow> string list \<Rightarrow> result" where
  \<comment> \<open>the whole script on \<^verbatim>\<open>sys.argv\<close>\<close>
  "run e argv =
     (if length argv < 3 then halt [] Usage
      else if startswith (argv ! 1) ''-h'' \<or> startswith (argv ! 1) ''--h'' then halt [] Usage
      else (case parse_args argv of
              Inl (msgs, oc) \<Rightarrow> halt msgs oc
            | Inr st \<Rightarrow> finish e st))"

subsection \<open>Quantities and inputs the statements below refer to\<close>

definition option_flags :: "string list" where
  \<comment> \<open>the strings the loop over the command line compares an argument with\<close>
  "option_flags =
     [''-p'', ''-igb'', ''-system'', ''-minpKa'', ''-maxpKa'', ''--ignore-warnings'',
      ''-resname'', ''-notresname'', ''-resnum'', ''-notresnum'', ''-states'']"

definition same_but_system :: "opts \<Rightarrow> opts \<Rightarrow> bool" where
  "same_but_system a b = (a\<lparr>system_name := []\<rparr> = b\<lparr>system_name := []\<rparr>)"

definition demo_float :: "string \<Rightarrow> pyfloat option" where
  \<comment> \<open>\<^verbatim>\<open>float\<close> on the decimal strings the examples use\<close>
  "demo_float s =
     (if s = ''4.0'' then Some (Fin 4) else if s = ''4.4'' then Some (Fin (22 / 5))
      else if s = ''6.5'' then Some (Fin (13 / 2)) else if s = ''9.6'' then Some (Fin (48 / 5))
      else if s = ''10.4'' then Some (Fin (52 / 5)) else if s = ''8.55'' then Some (Fin (171 / 20))
      else if s = ''5.0'' then Some (Fin 5) else if s = ''11.0'' then Some (Fin 11)
      else None)"

definition demo_table :: "string \<Rightarrow> int \<Rightarrow> data option" where
  \<comment> \<open>a small reference table: two states for each of two names, for igb = 5\<close>
  "demo_table nm g =
     (if nm = ''AS4'' \<and> g = 5
      then Some [[''0'', ''0'', ''-0.4'', ''0.1''], [''26.8'', ''1'', ''-0.2'', ''0.3'']]
      else if nm = ''TYR'' \<and> g = 5
      then Some [[''0'', ''1'', ''0.5''], [''-65.1'', ''0'', ''0.7'']]
      else None)"

definition demo_env :: "string list \<Rightarrow> env" where
  \<comment> \<open>a topology with the given residue names, in a file that exists, with the radius
      set the script expects\<close>
  "demo_env labels =
     \<lparr>fileexists = (\<lambda>_. 0), residue_labels = (\<lambda>_. labels),
      residue_pointers = (\<lambda>_. [''1'', ''11'', ''26'', ''38'']),
      getbondiset = (\<lambda>_. mbondi2), getData = demo_table, py_float = demo_float\<rparr>"

definition demo_opts :: opts where
  \<comment> \<open>the options after \<^verbatim>\<open>-p a.top -igb 5\<close>\<close>
  "demo_opts = init_opts\<lparr>prmtop := ''a.top'', igb := ''5''\<rparr>"

definition demo_params :: "int list \<Rightarrow> params" where
  \<comment> \<open>the converted arguments of such a command line, with the given initial states\<close>
  "demo_params sts = \<lparr>igb_n = 5, minpKa_f = Fin (- 100), maxpKa_f = Fin 100, resnums_n = [],
                      notresnums_n = [], states_n = sts\<rparr>"

subsection \<open>How far a run has come\<close>

text \<open>
  Each predicate says that the script has passed every test up to a line, and names the
  values its variables hold there.
\<close>

definition asks_help :: "string list \<Rightarrow> bool" where
  \<comment> \<open>lines 21 to 25: the script calls \<^verbatim>\<open>printusage\<close> before it reads the command line\<close>
  "asks_help argv =
     (length argv < 3 \<or> startswith (argv ! 1) ''-h'' \<or> startswith (argv ! 1) ''--h'')"

definition parsed :: "string list \<Rightarrow> opts \<Rightarrow> bool" where
  \<comment> \<open>line 152 is reached, with the options \<open>st\<close>\<close>
  "parsed argv st = (\<not> asks_help argv \<and> parse_args argv = Inr st)"

definition igb_string :: "opts \<Rightarrow> string" where
  \<comment> \<open>\<^verbatim>\<open>igb\<close> after line 158\<close>
  "igb_string st = (if igb st = '' '' then ''5'' else igb st)"

definition warnings :: "opts \<Rightarrow> string list" where
  \<comment> \<open>what lines 154 to 157 write to the error stream\<close>
  "warnings st = (if igb st = '' '' \<and> \<not> ignore_warn st then [msg_igb] else [])"

definition loaded :: "env \<Rightarrow> string list \<Rightarrow> opts \<Rightarrow> bool" where
  \<comment> \<open>line 181 is reached: the file exists, the radius set is accepted, the topology
      has residue names and pointers\<close>
  "loaded e argv st =
     (parsed argv st \<and> fileexists e (prmtop st) \<noteq> - 1 \<and>
      (ignore_warn st \<or> getbondiset e (prmtop st) = mbondi2) \<and>
      residue_labels e (prmtop st) \<noteq> [] \<and> residue_pointers e (prmtop st) \<noteq> [])"

definition converted :: "env \<Rightarrow> string list \<Rightarrow> opts \<Rightarrow> params \<Rightarrow> bool" where
  \<comment> \<open>line 219 is reached: the arguments converted to \<open>p\<close>, the pKa loop ended\<close>
  "converted e argv st p =
     (loaded e argv st \<and> convert e st (igb_string st) = Inr p \<and>
      pka_filter e (minpKa_f p) (maxpKa_f p)
         (zip (split_ws titratable) (split_ws exp_pkas)) = None)"

definition selected :: "env \<Rightarrow> string list \<Rightarrow> opts \<Rightarrow> params \<Rightarrow> sel \<Rightarrow> bool" where
  \<comment> \<open>line 258 is reached, with the selection \<open>s\<close>\<close>
  "selected e argv st p s =
     (converted e argv st p \<and>
      select_residues (prmtop st) (residue_labels e (prmtop st)) (titrate_residues st)
         (resnums_n p) (notresnums_n p) = Inr s)"

definition record_started :: "env \<Rightarrow> string list \<Rightarrow> opts \<Rightarrow> params \<Rightarrow> sel \<Rightarrow> int list \<Rightarrow> bool" where
  \<comment> \<open>line 286 is reached, with the selection \<open>s\<close> and the initial states \<open>sts\<close>\<close>
  "record_started e argv st p s sts =
     (selected e argv st p s \<and> initial_states (states_n p) s = Inr sts)"

definition exits_zero :: "result \<Rightarrow> bool" where
  \<comment> \<open>the run ended in \<^verbatim>\<open>sys.exit()\<close>, and the status of the process is 0\<close>
  "exits_zero r = (status r = SysExit \<and> exit_status (status r) = Some 0)"

subsection \<open>Shapes of a result\<close>

text \<open>
  Three shapes cover every run: the process ends before the record is begun; it ends inside
  one of the accumulating fields; it completes. The lemmas below show that there is no
  fourth.
\<close>

definition msg_cmdline :: string where
  "msg_cmdline = ''Error: Command line error!''"

definition msg_done :: string where
  "msg_done = ''CPin created!''"

definition validation_line :: "string \<Rightarrow> bool" where
  "validation_line m = (startswith m ''Error: '' \<and> m \<noteq> msg_cmdline \<and> m \<noteq> msg_types)"

definition field_line :: "string \<Rightarrow> bool" where
  "field_line l = (l \<noteq> [] \<and> hd l = CHR '' '')"

definition warn_only :: "string list \<Rightarrow> bool" where
  "warn_only w = (w = [] \<or> w = [msg_igb])"

definition pre_fail :: "fail \<Rightarrow> bool" where
  "pre_fail f = (snd f \<noteq> Completed \<and> msg_lookup \<notin> set (fst f) \<and> msg_range \<notin> set (fst f) \<and>
                 (list_ex validation_line (fst f) \<longrightarrow> snd f = SysExit))"

definition token_fail :: "fail \<Rightarrow> bool" where
  "token_fail f = (f = lookup_fail \<or> f = ([msg_range], SysExit) \<or>
                   (fst f = [] \<and> (\<exists>ex. snd f = Uncaught ex)))"

definition shape_halted :: "result \<Rightarrow> bool" where
  "shape_halted r = (\<exists>w f. warn_only w \<and> pre_fail f \<and> r = halt (w @ fst f) (snd f))"

definition shape_partial :: "result \<Rightarrow> bool" where
  "shape_partial r = (\<exists>ls w f. warn_only w \<and> token_fail f \<and> list_all field_line ls \<and>
       r = \<lparr>out = ''&CNSTPH'' # ls, err = w @ fst f, status = snd f\<rparr>)"

definition shape_complete :: "result \<Rightarrow> bool" where
  "shape_complete r = (\<exists>ls w s. warn_only w \<and> list_all field_line ls \<and>
       r = \<lparr>out = ''&CNSTPH'' # ls @ [trescnt_line s, ''/''], err = w @ [msg_done],
            status = Completed\<rparr>)"

section \<open>The line buffer wraps between tokens\<close>

lemma add_tokens_groups:
  "\<exists>ps l gs. add_tokens line (map Inr ts) = (ps, Inr l) \<and> concat gs = ts \<and> gs \<noteq> [] \<and>
     [] \<notin> set (tl gs) \<and>
     ps @ [l] = (line @ concat (hd gs)) # map (\<lambda>g. '' '' @ concat g) (tl gs)"
proof (induction ts arbitrary: line)
  case Nil
  have "add_tokens line (map Inr []) = ([], Inr line) \<and> concat [[]] = ([]::string list) \<and> [[]] \<noteq> ([]::string list list) \<and>
     [] \<notin> set (tl ([[]]::string list list)) \<and>
     [] @ [line] = (line @ concat (hd [[]])) # map (\<lambda>g. '' '' @ concat g) (tl [[]])"
    by simp
  then show ?case by blast
next
  case (Cons t ts)
  show ?case
  proof (cases "length line + length t > 80")
    case True
    from Cons.IH[of "'' '' @ t"] obtain ps l gs where
      h: "add_tokens ('' '' @ t) (map Inr ts) = (ps, Inr l)" "concat gs = ts" "gs \<noteq> []"
         "[] \<notin> set (tl gs)"
         "ps @ [l] = (('' '' @ t) @ concat (hd gs)) # map (\<lambda>g. '' '' @ concat g) (tl gs)"
      by blast
    let ?gs = "[] # (t # hd gs) # tl gs"
    have "add_tokens line (map Inr (t # ts)) = (line # ps, Inr l)"
      using True h(1) by (simp add: addOn_def)
    moreover have "concat ?gs = t # ts"
      using h(2,3) by (cases gs) auto
    moreover have "[] \<notin> set (tl ?gs)" using h(4) by simp
    moreover have "(line # ps) @ [l] = (line @ concat (hd ?gs)) # map (\<lambda>g. '' '' @ concat g) (tl ?gs)"
      using h(5) by simp
    ultimately show ?thesis by (metis list.distinct(1))
  next
    case False
    from Cons.IH[of "line @ t"] obtain ps l gs where
      h: "add_tokens (line @ t) (map Inr ts) = (ps, Inr l)" "concat gs = ts" "gs \<noteq> []"
         "[] \<notin> set (tl gs)"
         "ps @ [l] = ((line @ t) @ concat (hd gs)) # map (\<lambda>g. '' '' @ concat g) (tl gs)"
      by blast
    let ?gs = "(t # hd gs) # tl gs"
    have "add_tokens line (map Inr (t # ts)) = (ps, Inr l)"
      using False h(1) by (simp add: addOn_def)
    moreover have "concat ?gs = t # ts"
      using h(2,3) by (cases gs) auto
    moreover have "[] \<notin> set (tl ?gs)" using h(4) by simp
    moreover have "ps @ [l] = (line @ concat (hd ?gs)) # map (\<lambda>g. '' '' @ concat g) (tl ?gs)"
      using h(5) by simp
    ultimately show ?thesis by (metis list.distinct(1))
  qed
qed

lemma add_tokens_bound:
  "add_tokens line (map Inr ts) = (ps, Inr l) \<Longrightarrow> length line \<le> 80 \<Longrightarrow>
   \<forall>t\<in>set ts. length t \<le> 79 \<Longrightarrow> (\<forall>p\<in>set ps. length p \<le> 80) \<and> length l \<le> 80"
proof (induction ts arbitrary: line ps l)
  case Nil
  then show ?case by simp
next
  case (Cons t ts)
  obtain p l' where a: "addOn line t = (p, l')" by (cases "addOn line t")
  obtain ps' r where b: "add_tokens l' (map Inr ts) = (ps', r)" by (cases "add_tokens l' (map Inr ts)")
  from Cons.prems(1) a b have c: "ps = p @ ps'" "r = Inr l" by auto
  from a Cons.prems(2,3) have d: "length l' \<le> 80" "\<forall>q\<in>set p. length q \<le> 80"
    by (auto simp: addOn_def split: if_splits)
  from Cons.IH[OF b[unfolded c(2)] d(1)] Cons.prems(3)
  have "(\<forall>p\<in>set ps'. length p \<le> 80) \<and> length l \<le> 80" by simp
  with c d show ?case by auto
qed

lemma add_tokens_long:
  "add_tokens line (map Inr ts) = (ps, Inr l) \<Longrightarrow> t \<in> set ts \<Longrightarrow> length t > 80 \<Longrightarrow>
   '' '' @ t \<in> set (ps @ [l])"
proof (induction ts arbitrary: line ps l)
  case Nil
  then show ?case by simp
next
  case (Cons u ts)
  obtain p l' where a: "addOn line u = (p, l')" by (cases "addOn line u")
  obtain ps' r where b: "add_tokens l' (map Inr ts) = (ps', r)" by (cases "add_tokens l' (map Inr ts)")
  from Cons.prems(1) a b have c: "ps = p @ ps'" "r = Inr l" by auto
  show ?case
  proof (cases "t \<in> set ts")
    case True
    from Cons.IH[OF b[unfolded c(2)] True Cons.prems(3)] c show ?thesis by auto
  next
    case False
    with Cons.prems(2) have tu: "u = t" by simp
    with a Cons.prems(3) have l': "l' = '' '' @ t" by (auto simp: addOn_def)
    show ?thesis
    proof (cases ts)
      case Nil
      with b l' c show ?thesis by simp
    next
      case (Cons w ws)
      with b l' Cons.prems(3) c have "'' '' @ t \<in> set ps'"
        by (auto simp: addOn_def split: prod.splits)
      with c show ?thesis by simp
    qed
  qed
qed

text \<open>
  Claim C7, as the code has it. A field is written by \<open>emit_field\<close>: the prefix, then
  one call of \<open>addOn\<close> per token. The lines it prints are the prefix followed by a first
  group of whole tokens, then one line per further group, each a single space followed by the
  whole tokens of a non-empty group, and the groups in order are the tokens in order: a line
  break falls only between two tokens. When the prefix has at most 80 characters and every
  token at most 79, no line has more than 80 characters. A token of more than 80 characters
  is printed whole, after the single space, on a line of its own; that line is longer than
  80 characters.
\<close>

theorem addOn_wrapping:
  assumes "emit_field prefix (map Inr ts) = (ls, r)"
  shows "r = None \<and>
    (\<exists>gs. concat gs = ts \<and> gs \<noteq> [] \<and> [] \<notin> set (tl gs) \<and>
           ls = (prefix @ concat (hd gs)) # map (\<lambda>g. '' '' @ concat g) (tl gs)) \<and>
    (length prefix \<le> 80 \<and> (\<forall>t\<in>set ts. length t \<le> 79) \<longrightarrow> (\<forall>l\<in>set ls. length l \<le> 80)) \<and>
    (\<forall>t\<in>set ts. length t > 80 \<longrightarrow> '' '' @ t \<in> set ls \<and> length ('' '' @ t) > 80)"
proof -
  from add_tokens_groups[of prefix ts] obtain ps l gs where
    h: "add_tokens prefix (map Inr ts) = (ps, Inr l)" "concat gs = ts" "gs \<noteq> []"
       "[] \<notin> set (tl gs)"
       "ps @ [l] = (prefix @ concat (hd gs)) # map (\<lambda>g. '' '' @ concat g) (tl gs)"
    by blast
  from assms h(1) have e: "ls = ps @ [l]" "r = None"
    by (auto simp: emit_field_def)
  have g: "\<exists>gs. concat gs = ts \<and> gs \<noteq> [] \<and> [] \<notin> set (tl gs) \<and>
           ls = (prefix @ concat (hd gs)) # map (\<lambda>g. '' '' @ concat g) (tl gs)"
    using h(2,3,4,5) e(1) by blast
  have b: "length prefix \<le> 80 \<and> (\<forall>t\<in>set ts. length t \<le> 79) \<longrightarrow> (\<forall>l\<in>set ls. length l \<le> 80)"
    using add_tokens_bound[OF h(1)] e(1) by auto
  have w: "\<forall>t\<in>set ts. length t > 80 \<longrightarrow> '' '' @ t \<in> set ls \<and> length ('' '' @ t) > 80"
    using add_tokens_long[OF h(1)] e(1) by auto
  from e(2) g b w show ?thesis by blast
qed

theorem addOn_wrapping_witness:
  "emit_field '' CHRGDAT='' (map Inr [replicate 40 (CHR ''1''), replicate 40 (CHR ''2''), ''3,''])
     = ([CHR '' '' # ''CHRGDAT='' @ replicate 40 (CHR ''1''),
         CHR '' '' # replicate 40 (CHR ''2'') @ ''3,''], None) \<and>
   list_all (\<lambda>l. length l \<le> 80)
     [CHR '' '' # ''CHRGDAT='' @ replicate 40 (CHR ''1''),
      CHR '' '' # replicate 40 (CHR ''2'') @ ''3,''] \<and>
   CHR '' '' # replicate 81 (CHR ''4'') \<in> set (fst (emit_field '' CHRGDAT='' (map Inr [replicate 81 (CHR ''4'')])))"
proof -
  have a: "emit_field '' CHRGDAT='' (map Inr [replicate 40 (CHR ''1''), replicate 40 (CHR ''2''), ''3,''])
     = ([CHR '' '' # ''CHRGDAT='' @ replicate 40 (CHR ''1''),
         CHR '' '' # replicate 40 (CHR ''2'') @ ''3,''], None)"
    by code_simp
  have b: "emit_field '' CHRGDAT='' (map Inr [replicate 81 (CHR ''4'')])
     = (fst (emit_field '' CHRGDAT='' (map Inr [replicate 81 (CHR ''4'')])),
        snd (emit_field '' CHRGDAT='' (map Inr [replicate 81 (CHR ''4'')])))"
    by simp
  from addOn_wrapping[OF a] have "list_all (\<lambda>l. length l \<le> 80)
     [CHR '' '' # ''CHRGDAT='' @ replicate 40 (CHR ''1''),
      CHR '' '' # replicate 40 (CHR ''2'') @ ''3,'']"
    by simp
  moreover from addOn_wrapping[OF b]
  have "CHR '' '' # replicate 81 (CHR ''4'') \<in> set (fst (emit_field '' CHRGDAT='' (map Inr [replicate 81 (CHR ''4'')])))"
    by simp
  ultimately show ?thesis using a by blast
qed

theorem line_of_81_characters:
  "length (fst (emit_field '' CHRGDAT='' [Inr (replicate 80 (CHR ''4''))]) ! 1) = 81"
  by code_simp

section \<open>The residue selector\<close>

lemma scan_from_lower: "(m, nm) \<in> set (scan_from n ls tr) \<Longrightarrow> n \<le> m"
proof (induction ls arbitrary: n)
  case Nil
  then show ?case by simp
next
  case (Cons a ls)
  from Cons.prems have "m = n \<or> (m, nm) \<in> set (scan_from (n + 1) ls tr)"
    by (auto split: if_splits)
  with Cons.IH[of "n + 1"] show ?case by auto
qed

lemma scan_from_props:
  "(m, nm) \<in> set (scan_from n ls tr) \<Longrightarrow>
     n \<le> m \<and> m < n + int (length ls) \<and> ls ! nat (m - n) = nm \<and> py_in nm tr"
proof (induction ls arbitrary: n)
  case Nil
  then show ?case by simp
next
  case (Cons a ls)
  show ?case
  proof (cases "m = n")
    case True
    have "(n, nm) \<notin> set (scan_from (n + 1) ls tr)"
      using scan_from_lower[of n nm "n + 1" ls tr] by auto
    with Cons.prems True show ?thesis by (auto split: if_splits)
  next
    case False
    with Cons.prems have "(m, nm) \<in> set (scan_from (n + 1) ls tr)"
      by (auto split: if_splits)
    from Cons.IH[OF this] have h: "n + 1 \<le> m" "m < n + 1 + int (length ls)"
      "ls ! nat (m - (n + 1)) = nm" "py_in nm tr" by auto
    from h(1) have "nat (m - n) = Suc (nat (m - (n + 1)))" by simp
    with h show ?thesis by simp
  qed
qed

lemma scan_from_distinct: "distinct (map fst (scan_from n ls tr))"
proof (induction ls arbitrary: n)
  case Nil
  then show ?case by simp
next
  case (Cons a ls)
  have "\<And>q. (n, q) \<notin> set (scan_from (n + 1) ls tr)"
    using scan_from_lower[of n _ "n + 1" ls tr] by fastforce
  then have "n \<notin> fst ` set (scan_from (n + 1) ls tr)" by force
  with Cons.IH[of "n + 1"] show ?case by simp
qed

lemma drop_num_subset: "set (drop_num n s) \<subseteq> set s"
  by (induction n s rule: drop_num.induct) auto

lemma drop_num_distinct: "distinct (map fst s) \<Longrightarrow> distinct (map fst (drop_num n s))"
proof (induction n s rule: drop_num.induct)
  case (1 n)
  then show ?case by simp
next
  case (2 n m nm s)
  have "fst ` set (drop_num n s) \<subseteq> fst ` set s" using drop_num_subset by blast
  with 2 show ?case by auto
qed

lemma drop_nums_subset: "set (foldl (\<lambda>s n. drop_num n s) s ns) \<subseteq> set s"
proof (induction ns arbitrary: s)
  case Nil
  then show ?case by simp
next
  case (Cons a ns)
  from Cons.IH[of "drop_num a s"] drop_num_subset[of a s] show ?case by auto
qed

lemma drop_nums_distinct:
  "distinct (map fst s) \<Longrightarrow> distinct (map fst (foldl (\<lambda>s n. drop_num n s) s ns))"
  by (induction ns arbitrary: s) (auto simp: drop_num_distinct)

lemma select_listed_props:
  "select_listed path labels tr ns = Inr s \<Longrightarrow> (m, nm) \<in> set s \<Longrightarrow>
     py_in nm tr \<and> py_get labels (m - 1) = Inr nm"
proof (induction ns arbitrary: s)
  case Nil
  then show ?case by simp
next
  case (Cons n ns)
  from Cons.prems(1) obtain q s' where
    h: "py_get labels (n - 1) = Inr q" "py_in q tr" "select_listed path labels tr ns = Inr s'"
       "s = (n, q) # s'"
    by (auto split: if_splits sum.splits)
  show ?case
  proof (cases "(m, nm) = (n, q)")
    case True
    with h show ?thesis by simp
  next
    case False
    with Cons.prems(2) h(4) have "(m, nm) \<in> set s'" by auto
    from Cons.IH[OF h(3) this] show ?thesis .
  qed
qed

lemma scan_from_get:
  assumes "(m, nm) \<in> set (scan_from 1 labels tr)"
  shows "py_get labels (m - 1) = Inr nm"
proof -
  from scan_from_props[OF assms] have "1 \<le> m" "m < 1 + int (length labels)"
    "labels ! nat (m - 1) = nm" by auto
  then show ?thesis by (simp add: py_get_def)
qed

lemma select_listed_numbers:
  "select_listed path labels tr ns = Inr s \<Longrightarrow> map fst s = ns"
  by (induction ns arbitrary: s) (auto split: if_splits sum.splits)

text \<open>
  Claim C5, as the code has it. When the selector returns a selection: if the include list
  of numbers holds no number twice (in particular when there is none and the topology is
  scanned), no residue number is returned twice; with an include list and no exclude list
  the numbers returned are the numbers supplied, in the order supplied, a repeated number
  repeated; and every number \<open>n\<close> returned carries the name \<^verbatim>\<open>prmtop_residues[n-1]\<close>.
  Nothing is said here on how that name relates to the active names: the test of lines 226
  and 237 is \<^verbatim>\<open>in\<close> on two strings, and the example after the theorem shows what it
  lets through.
\<close>

theorem selector_numbers_kept:
  assumes "select_residues path labels tr rns nrns = Inr s"
  shows "(distinct rns \<longrightarrow> distinct (map fst s)) \<and>
         (rns \<noteq> [] \<and> nrns = [] \<longrightarrow> map fst s = rns) \<and>
         (\<forall>(n, nm)\<in>set s. py_get labels (n - 1) = Inr nm)"
proof (cases "rns = []")
  case True
  let ?s0 = "scan_from 1 labels tr"
  from assms True have s: "s = foldl (\<lambda>s n. drop_num n s) ?s0 nrns"
    by (auto simp: select_residues_def split: if_splits)
  have "distinct (map fst s)" unfolding s by (rule drop_nums_distinct[OF scan_from_distinct])
  moreover have "set s \<subseteq> set ?s0" unfolding s by (rule drop_nums_subset)
  ultimately show ?thesis
    using True scan_from_get[of _ _ labels tr] by blast
next
  case False
  from assms False obtain s0 where
    s0: "select_listed path labels tr rns = Inr s0" "s = foldl (\<lambda>s n. drop_num n s) s0 nrns"
    by (auto simp: select_residues_def split: if_splits sum.splits)
  note num = select_listed_numbers[OF s0(1)]
  have a: "distinct rns \<longrightarrow> distinct (map fst s)"
    unfolding s0(2) using drop_nums_distinct[of s0 nrns] num by simp
  have b: "rns \<noteq> [] \<and> nrns = [] \<longrightarrow> map fst s = rns"
    using s0(2) num by simp
  have "set s \<subseteq> set s0" unfolding s0(2) by (rule drop_nums_subset)
  with select_listed_props[OF s0(1)] have c: "\<forall>(n, nm)\<in>set s. py_get labels (n - 1) = Inr nm"
    by blast
  from a b c show ?thesis by blast
qed

theorem selector_numbers_kept_witness:
  "select_residues ''a.top'' [''ALA'', ''GLU'', ''AS4'', ''TYR''] titratable [4, 3] []
     = Inr [(4, ''TYR''), (3, ''AS4'')] \<and>
   distinct [4 :: int, 3] \<and> distinct (map fst [(4 :: int, ''TYR''), (3, ''AS4'')]) \<and>
   map fst [(4 :: int, ''TYR''), (3, ''AS4'')] = [4, 3] \<and>
   py_get [''ALA'', ''GLU'', ''AS4'', ''TYR''] (4 - 1) = Inr ''TYR''"
proof -
  have a: "select_residues ''a.top'' [''ALA'', ''GLU'', ''AS4'', ''TYR''] titratable [4, 3] []
     = Inr [(4, ''TYR''), (3, ''AS4'')]"
    by code_simp
  from selector_numbers_kept[OF a] a show ?thesis by simp
qed

text \<open>
  Two inputs on which the selector does not behave as claim C5 is worded: an include list
  that names residue 3 twice returns it twice; and a residue named S4, which is no
  built-in name, is selected by the scan because S4 occurs inside AS4.
\<close>

theorem selector_duplicates_and_substrings:
  "select_residues ''a.top'' [''ALA'', ''GLU'', ''AS4'', ''TYR''] titratable [3, 3] []
     = Inr [(3, ''AS4''), (3, ''AS4'')] \<and>
   \<not> distinct (map fst [(3 :: int, ''AS4''), (3, ''AS4'')]) \<and>
   select_residues ''a.top'' [''ALA'', ''S4''] titratable [] [] = Inr [(2, ''S4'')] \<and>
   ''S4'' \<notin> set (split_ws titratable)"
  by code_simp

section \<open>The deduplicated names\<close>

lemma dedup_fold_distinct:
  "distinct acc \<Longrightarrow>
   distinct (foldl (\<lambda>names (n, nm). if nm \<in> set names then names else names @ [nm]) acc s)"
  by (induction s arbitrary: acc) (auto split: prod.splits)

lemma dedup_fold_set:
  "set (foldl (\<lambda>names (n, nm). if nm \<in> set names then names else names @ [nm]) acc s)
     = set acc \<union> snd ` set s"
  by (induction s arbitrary: acc) (auto split: prod.splits)

lemma distinct_dedup_names: "distinct (dedup_names s)"
  unfolding dedup_names_def by (rule dedup_fold_distinct) simp

lemma set_dedup_names: "set (dedup_names s) = snd ` set s"
  unfolding dedup_names_def by (simp add: dedup_fold_set)

section \<open>The value given to -system\<close>

lemma flag_values_cut:
  "flag_values (xs @ ''-system'' # ys) = flag_values (xs @ ''-system'' # zs)"
proof -
  have d: "\<not> (\<not> startswith ''-system'' ''-'')" by (simp add: startswith_def)
  have tw: "takeWhile (\<lambda>a. \<not> startswith a ''-'') (xs @ ''-system'' # r)
               = takeWhile (\<lambda>a. \<not> startswith a ''-'') xs" for r
    using takeWhile_tail[of "\<lambda>a. \<not> startswith a ''-''" "''-system''" xs r] d by blast
  show ?thesis unfolding flag_values_def tw ..
qed

lemma arg_step_rest:
  "arg_step a (xs @ ''-system'' # v1 # post) st = arg_step a (xs @ ''-system'' # v2 # post) st"
proof -
  have f: "flag_values (xs @ ''-system'' # v1 # post) = flag_values (xs @ ''-system'' # v2 # post)"
    by (rule flag_values_cut)
  have h: "\<And>A B. (case xs @ ''-system'' # v1 # post of [] \<Rightarrow> A | v # x \<Rightarrow> B v)
               = (case xs @ ''-system'' # v2 # post of [] \<Rightarrow> A | v # x \<Rightarrow> (B v :: fail + opts))"
    by (cases xs) simp_all
  show ?thesis unfolding arg_step_def f h ..
qed

lemma arg_step_no_flag: "a \<notin> set option_flags \<Longrightarrow> arg_step a rest st = Inr st"
  by (simp add: arg_step_def option_flags_def)

lemma arg_step_same:
  assumes "same_but_system st1 st2"
  shows "rel_sum (=) same_but_system (arg_step a rest st1) (arg_step a rest st2)"
proof -
  from assms have "st2 = st1\<lparr>system_name := system_name st2\<rparr>"
    unfolding same_but_system_def
    by (cases st1, cases st2) simp
  then obtain v where e: "st2 = st1\<lparr>system_name := v\<rparr>" ..
  show ?thesis unfolding e
    by (simp add: arg_step_def same_but_system_def split: list.split)
qed

lemma parse_loop_same:
  "same_but_system st1 st2 \<Longrightarrow>
   rel_sum (=) same_but_system (parse_loop as st1) (parse_loop as st2)"
proof (induction as arbitrary: st1 st2)
  case Nil
  then show ?case by simp
next
  case (Cons a as)
  from arg_step_same[OF Cons.prems, of a as] show ?case
    by (cases "arg_step a as st1"; cases "arg_step a as st2") (auto intro: Cons.IH)
qed

lemma parse_loop_system:
  assumes "v1 \<notin> set option_flags" "v2 \<notin> set option_flags" "same_but_system st1 st2"
  shows "rel_sum (=) same_but_system (parse_loop (xs @ ''-system'' # v1 # post) st1)
                                      (parse_loop (xs @ ''-system'' # v2 # post) st2)"
  using assms(3)
proof (induction xs arbitrary: st1 st2)
  case Nil
  have a: "arg_step ''-system'' (v # post) st = Inr (st\<lparr>system_name := v\<rparr>)" for v st
    by (simp add: arg_step_def)
  have "same_but_system (st1\<lparr>system_name := v1\<rparr>) (st2\<lparr>system_name := v2\<rparr>)"
    using Nil by (simp add: same_but_system_def)
  from parse_loop_same[OF this, of post] show ?case
    by (simp add: a arg_step_no_flag[OF assms(1)] arg_step_no_flag[OF assms(2)])
next
  case (Cons a xs)
  have "rel_sum (=) same_but_system (arg_step a (xs @ ''-system'' # v1 # post) st1)
                                     (arg_step a (xs @ ''-system'' # v2 # post) st2)"
    using arg_step_same[OF Cons.prems, of a "xs @ ''-system'' # v1 # post"]
    by (simp add: arg_step_rest[of a xs v1 post st2 v2])
  then show ?case
    by (cases "arg_step a (xs @ ''-system'' # v1 # post) st1";
        cases "arg_step a (xs @ ''-system'' # v2 # post) st2") (auto intro: Cons.IH)
qed

lemma convert_system: "convert e (st\<lparr>system_name := v\<rparr>) g = convert e st g"
  by (simp add: convert_def)

lemma finish_system: "finish e (st\<lparr>system_name := v\<rparr>) = finish e st"
  by (simp add: finish_def convert_system Let_def split del: if_split
           cong: if_cong sum.case_cong option.case_cong prod.case_cong)

lemma finish_same: "same_but_system st1 st2 \<Longrightarrow> finish e st1 = finish e st2"
  unfolding same_but_system_def using finish_system[where e = e and st = st1 and v = "[]"]
        finish_system[where e = e and st = st2 and v = "[]"]
  by simp

section \<open>Every run has one of three shapes\<close>

lemma add_tokens_fail: "add_tokens line toks = (ps, Inl f) \<Longrightarrow> Inl f \<in> set toks"
  by (induction line toks arbitrary: ps rule: add_tokens.induct)
     (auto split: prod.splits)

lemma emit_field_fail: "emit_field p toks = (ls, Some f) \<Longrightarrow> Inl f \<in> set toks"
  by (auto simp: emit_field_def split: prod.splits sum.splits dest: add_tokens_fail)

lemma run_fields_fail:
  "run_fields fs = (ls, Some f) \<Longrightarrow> \<exists>p toks. (p, toks) \<in> set fs \<and> Inl f \<in> set toks"
proof (induction fs arbitrary: ls)
  case Nil
  then show ?case by simp
next
  case (Cons a fs)
  obtain p toks where a: "a = (p, toks)" by (cases a)
  obtain l1 r1 where e: "emit_field p toks = (l1, r1)" by (cases "emit_field p toks")
  show ?case
  proof (cases r1)
    case None
    obtain l2 r2 where r: "run_fields fs = (l2, r2)" by (cases "run_fields fs")
    with Cons.prems a e None have "r2 = Some f" by simp
    with Cons.IH[of l2] r show ?thesis by auto
  next
    case (Some g)
    with Cons.prems a e have "g = f" by simp
    with emit_field_fail[of p toks l1 f] e Some a show ?thesis by auto
  qed
qed

lemma addOn_lines:
  "field_line line \<Longrightarrow> addOn line t = (p, l) \<Longrightarrow> list_all field_line p \<and> field_line l"
  by (auto simp: addOn_def field_line_def split: if_splits)

lemma add_tokens_lines:
  "field_line line \<Longrightarrow> add_tokens line toks = (ps, r) \<Longrightarrow>
     list_all field_line ps \<and> (case r of Inl f \<Rightarrow> True | Inr l \<Rightarrow> field_line l)"
proof (induction line toks arbitrary: ps r rule: add_tokens.induct)
  case (1 line)
  then show ?case by auto
next
  case (2 line f ts)
  then show ?case by auto
next
  case (3 line t ts)
  obtain p l where a: "addOn line t = (p, l)" by (cases "addOn line t")
  obtain ps' r' where b: "add_tokens l ts = (ps', r')" by (cases "add_tokens l ts")
  from addOn_lines[OF "3.prems"(1) a] have c: "list_all field_line p" "field_line l" by auto
  from "3.IH"[OF a[symmetric] c(2) b] have "list_all field_line ps'"
    "(case r' of Inl f \<Rightarrow> True | Inr l \<Rightarrow> field_line l)" by auto
  moreover from "3.prems"(2) a b have "ps = p @ ps'" "r = r'" by auto
  ultimately show ?case using c(1) by simp
qed

lemma emit_field_lines:
  "field_line p \<Longrightarrow> emit_field p toks = (ls, r) \<Longrightarrow> list_all field_line ls"
  using add_tokens_lines[of p toks]
  by (auto simp: emit_field_def split: prod.splits sum.splits)

lemma run_fields_lines:
  "\<forall>a\<in>set fs. field_line (fst a) \<Longrightarrow> run_fields fs = (ls, r) \<Longrightarrow> list_all field_line ls"
proof (induction fs arbitrary: ls r)
  case Nil
  then show ?case by simp
next
  case (Cons a fs)
  obtain p toks where a: "a = (p, toks)" by (cases a)
  obtain l1 r1 where e: "emit_field p toks = (l1, r1)" by (cases "emit_field p toks")
  from Cons.prems(1) a have "field_line p" by simp
  from emit_field_lines[OF this e] have l1: "list_all field_line l1" .
  show ?case
  proof (cases r1)
    case None
    obtain l2 r2 where r: "run_fields fs = (l2, r2)" by (cases "run_fields fs")
    from Cons.IH[OF _ r] Cons.prems(1) have "list_all field_line l2" by simp
    moreover from Cons.prems(2) a e None r have "ls = l1 @ l2" by simp
    ultimately show ?thesis using l1 by simp
  next
    case (Some g)
    with Cons.prems(2) a e have "ls = l1" by simp
    with l1 show ?thesis by simp
  qed
qed

lemma chrgdat_tokens_fail: "Inl f \<in> set (chrgdat_tokens rd) \<Longrightarrow> token_fail f"
  by (auto simp: chrgdat_tokens_def token_fail_def split: option.splits)

lemma column_tokens_fail: "Inl f \<in> set (column_tokens i ds) \<Longrightarrow> token_fail f"
  by (auto simp: column_tokens_def token_fail_def raise_def split: sum.splits)

lemma resname_tokens_fail: "Inl f \<notin> set (resname_tokens s)"
  by (auto simp: resname_tokens_def)

lemma resstate_tokens_fail: "Inl f \<in> set (resstate_tokens nd s sts) \<Longrightarrow> token_fail f"
  by (auto simp: resstate_tokens_def token_fail_def split: if_splits)

lemma stateinf_tokens_fail:
  "Inl f \<in> set (stateinf_tokens ptrs nd x prev s) \<Longrightarrow> token_fail f"
  by (induction ptrs nd x prev s rule: stateinf_tokens.induct)
     (auto simp: token_fail_def raise_def split: sum.splits option.splits prod.splits)

lemma record_fields_fail:
  "(p, toks) \<in> set (record_fields ptrs names rd s sts) \<Longrightarrow> Inl f \<in> set toks \<Longrightarrow> token_fail f"
  by (auto simp: record_fields_def resname_tokens_fail split: option.splits
           dest: chrgdat_tokens_fail column_tokens_fail resstate_tokens_fail stateinf_tokens_fail)

lemma record_fields_prefix:
  "\<forall>a\<in>set (record_fields ptrs names rd s sts). field_line (fst a)"
  by (auto simp: record_fields_def field_line_def resname_prefix_def split: option.splits)

lemma emit_shape:
  assumes "warn_only w"
  shows "shape_partial (emit ptrs names rd s sts w) \<or> shape_complete (emit ptrs names rd s sts w)"
proof -
  obtain ls r where rf: "run_fields (record_fields ptrs names rd s sts) = (ls, r)"
    by (cases "run_fields (record_fields ptrs names rd s sts)")
  from run_fields_lines[OF record_fields_prefix rf] have ls: "list_all field_line ls" .
  show ?thesis
  proof (cases r)
    case None
    with rf have "emit ptrs names rd s sts w =
        \<lparr>out = ''&CNSTPH'' # ls @ [trescnt_line s, ''/''], err = w @ [msg_done],
         status = Completed\<rparr>"
      by (simp add: emit_def msg_done_def)
    with assms ls show ?thesis unfolding shape_complete_def by blast
  next
    case (Some f)
    from run_fields_fail[OF rf[unfolded Some]] record_fields_fail have tf: "token_fail f"
      by blast
    from rf Some have "emit ptrs names rd s sts w =
        \<lparr>out = ''&CNSTPH'' # ls, err = w @ fst f, status = snd f\<rparr>"
      by (simp add: emit_def split: prod.splits)
    with assms ls tf show ?thesis unfolding shape_partial_def by blast
  qed
qed

lemma pre_fail_SysExit:
  "msg_lookup \<notin> set msgs \<Longrightarrow> msg_range \<notin> set msgs \<Longrightarrow> pre_fail (msgs, SysExit)"
  by (simp add: pre_fail_def)

lemma pre_fail_consts:
  "pre_fail ([msg_resname], SysExit)" "pre_fail ([msg_resnum], SysExit)" "pre_fail cmdline_fail"
  "pre_fail ([msg_types], Uncaught NameError)" "pre_fail ([msg_none], SysExit)"
  "pre_fail ([], oc) = (oc \<noteq> Completed)" "pre_fail (msg_radius, SysExit)"
  by (simp_all add: pre_fail_def validation_line_def msg_resname_def msg_resnum_def
        cmdline_fail_def msg_cmdline_def msg_types_def msg_none_def msg_lookup_def
        msg_range_def msg_radius_def)

lemma pre_fail_vars:
  "pre_fail (msg_big path, SysExit)" "pre_fail ([msg_nottitr n nm], SysExit)"
  "pre_fail ([msg_states a b], SysExit)" "pre_fail (msg_labels path, SysExit)"
  by (simp_all add: pre_fail_def msg_big_def msg_nottitr_def msg_states_def msg_labels_def
        msg_lookup_def msg_range_def)

lemma arg_step_fail: "arg_step a rest st = Inl f \<Longrightarrow> pre_fail f"
  by (auto simp: arg_step_def pre_fail_consts split: if_splits list.splits)

lemma parse_loop_fail: "parse_loop as st = Inl f \<Longrightarrow> pre_fail f"
  by (induction as arbitrary: st) (auto split: sum.splits dest: arg_step_fail)

lemma convert_fail: "convert e st g = Inl f \<Longrightarrow> pre_fail f"
  by (auto simp: convert_def pre_fail_consts split: option.splits)

lemma select_listed_fail: "select_listed path labels tr ns = Inl f \<Longrightarrow> pre_fail f"
  by (induction ns) (auto simp: pre_fail_consts pre_fail_vars split: if_splits sum.splits)

lemma select_residues_fail: "select_residues path labels tr rns nrns = Inl f \<Longrightarrow> pre_fail f"
  by (auto simp: select_residues_def pre_fail_consts split: if_splits sum.splits
           dest: select_listed_fail)

lemma initial_states_fail: "initial_states sts s = Inl f \<Longrightarrow> pre_fail f"
  by (auto simp: initial_states_def pre_fail_vars split: if_splits)

lemma halted_pre_fail: "warn_only w \<Longrightarrow> pre_fail f \<Longrightarrow> shape_halted (halt (w @ fst f) (snd f))"
  unfolding shape_halted_def by blast

lemma finish_cases:
  "shape_halted (finish e st) \<or>
   (\<exists>p s sts.
      convert e st (if igb st = '' '' then ''5'' else igb st) = Inr p \<and>
      select_residues (prmtop st) (residue_labels e (prmtop st)) (titrate_residues st)
         (resnums_n p) (notresnums_n p) = Inr s \<and>
      initial_states (states_n p) s = Inr sts \<and>
      finish e st = emit (residue_pointers e (prmtop st)) (dedup_names s)
                      (map (\<lambda>nm. getData e nm (igb_n p)) (dedup_names s)) s sts
                      (if igb st = '' '' \<and> \<not> ignore_warn st then [msg_igb] else []))"
proof -
  define w where "w = (if igb st = '' '' \<and> \<not> ignore_warn st then [msg_igb] else [])"
  define g where "g = (if igb st = '' '' then ''5'' else igb st)"
  have ww: "warn_only w" by (simp add: w_def warn_only_def)
  have wn: "warn_only []" by (simp add: warn_only_def)
  note fd = finish_def Let_def w_def[symmetric] g_def[symmetric]
  show ?thesis
  proof (cases "fileexists e (prmtop st) = - 1")
    case True
    then have "finish e st = halt ([] @ fst ([], SysExit)) (snd ([], SysExit))"
      by (simp add: finish_def)
    with halted_pre_fail[OF wn, of "([], SysExit)"] show ?thesis
      by (simp add: pre_fail_consts)
  next
    case nofile: False
    show ?thesis
    proof (cases "\<not> ignore_warn st \<and> getbondiset e (prmtop st) \<noteq> mbondi2")
      case True
      with nofile have "finish e st = halt (w @ fst (msg_radius, SysExit)) (snd (msg_radius, SysExit))"
        unfolding fd by simp
      with halted_pre_fail[OF ww pre_fail_consts(7)] show ?thesis by simp
    next
      case radius: False
      show ?thesis
      proof (cases "residue_labels e (prmtop st) = [] \<or> residue_pointers e (prmtop st) = []")
        case True
        with nofile radius have "finish e st =
            halt (w @ fst (msg_labels (prmtop st), SysExit)) (snd (msg_labels (prmtop st), SysExit))"
          unfolding fd by auto
        with halted_pre_fail[OF ww pre_fail_vars(4)] show ?thesis by simp
      next
        case labels: False
        show ?thesis
        proof (cases "convert e st g")
          case (Inl f)
          with nofile radius labels have "finish e st = halt (w @ fst f) (snd f)"
            unfolding fd by (auto split: prod.splits)
          with halted_pre_fail[OF ww convert_fail[OF Inl]] show ?thesis by simp
        next
          case conv: (Inr p)
          show ?thesis
          proof (cases "pka_filter e (minpKa_f p) (maxpKa_f p)
                          (zip (split_ws titratable) (split_ws exp_pkas))")
            case (Some ex)
            with nofile radius labels conv
            have "finish e st = halt (w @ fst ([], Uncaught ex)) (snd ([], Uncaught ex))"
              unfolding fd by auto
            with halted_pre_fail[OF ww, of "([], Uncaught ex)"] show ?thesis
              by (simp add: pre_fail_consts)
          next
            case pka: None
            show ?thesis
            proof (cases "select_residues (prmtop st) (residue_labels e (prmtop st))
                            (titrate_residues st) (resnums_n p) (notresnums_n p)")
              case (Inl f)
              with nofile radius labels conv pka have "finish e st = halt (w @ fst f) (snd f)"
                unfolding fd by (auto split: prod.splits)
              with halted_pre_fail[OF ww select_residues_fail[OF Inl]] show ?thesis by simp
            next
              case sel: (Inr s)
              show ?thesis
              proof (cases "initial_states (states_n p) s")
                case (Inl f)
                with nofile radius labels conv pka sel
                have "finish e st = halt (w @ fst f) (snd f)"
                  unfolding fd by (auto split: prod.splits)
                with halted_pre_fail[OF ww initial_states_fail[OF Inl]] show ?thesis by simp
              next
                case (Inr sts)
                with nofile radius labels conv pka sel
                have "finish e st = emit (residue_pointers e (prmtop st)) (dedup_names s)
                        (map (\<lambda>nm. getData e nm (igb_n p)) (dedup_names s)) s sts w"
                  unfolding fd by auto
                with conv sel Inr show ?thesis unfolding w_def g_def by blast
              qed
            qed
          qed
        qed
      qed
    qed
  qed
qed

lemma finish_shape:
  "shape_halted (finish e st) \<or> shape_partial (finish e st) \<or> shape_complete (finish e st)"
proof -
  have "warn_only (if igb st = '' '' \<and> \<not> ignore_warn st then [msg_igb] else [])"
    by (simp add: warn_only_def)
  note es = emit_shape[OF this]
  from finish_cases[of e st] show ?thesis
  proof
    assume "shape_halted (finish e st)"
    then show ?thesis by simp
  next
    assume "\<exists>p s sts.
      convert e st (if igb st = '' '' then ''5'' else igb st) = Inr p \<and>
      select_residues (prmtop st) (residue_labels e (prmtop st)) (titrate_residues st)
         (resnums_n p) (notresnums_n p) = Inr s \<and>
      initial_states (states_n p) s = Inr sts \<and>
      finish e st = emit (residue_pointers e (prmtop st)) (dedup_names s)
                      (map (\<lambda>nm. getData e nm (igb_n p)) (dedup_names s)) s sts
                      (if igb st = '' '' \<and> \<not> ignore_warn st then [msg_igb] else [])"
    then obtain p :: params and s sts where
      "finish e st = emit (residue_pointers e (prmtop st)) (dedup_names s)
                      (map (\<lambda>nm. getData e nm (igb_n p)) (dedup_names s)) s sts
                      (if igb st = '' '' \<and> \<not> ignore_warn st then [msg_igb] else [])"
      by blast
    with es[of "residue_pointers e (prmtop st)" "dedup_names s"
              "map (\<lambda>nm. getData e nm (igb_n p)) (dedup_names s)" s sts]
    show ?thesis by simp
  qed
qed

lemma token_fail_not_completed: "token_fail f \<Longrightarrow> snd f \<noteq> Completed"
  by (auto simp: token_fail_def lookup_fail_def)

lemma emit_completed:
  assumes "status (emit ptrs names rd s sts w) = Completed"
  shows "\<exists>ls. out (emit ptrs names rd s sts w) = ''&CNSTPH'' # ls @ [trescnt_line s, ''/'']"
proof -
  obtain ls r where rf: "run_fields (record_fields ptrs names rd s sts) = (ls, r)"
    by (cases "run_fields (record_fields ptrs names rd s sts)")
  show ?thesis
  proof (cases r)
    case None
    with rf show ?thesis by (simp add: emit_def)
  next
    case (Some f)
    from run_fields_fail[OF rf[unfolded Some]] record_fields_fail have "token_fail f" by blast
    from token_fail_not_completed[OF this] rf Some assms show ?thesis
      by (simp add: emit_def split: prod.splits)
  qed
qed

lemma shape_halted_not_completed: "shape_halted r \<Longrightarrow> status r \<noteq> Completed"
  by (auto simp: shape_halted_def pre_fail_def halt_def)

lemma run_shape:
  "shape_halted (run e argv) \<or> shape_partial (run e argv) \<or> shape_complete (run e argv)"
proof -
  have wn: "warn_only []" by (simp add: warn_only_def)
  have u: "shape_halted (halt [] Usage)"
    using halted_pre_fail[OF wn, of "([], Usage)"] by (simp add: pre_fail_consts)
  show ?thesis
  proof (cases "length argv < 3 \<or> startswith (argv ! 1) ''-h'' \<or> startswith (argv ! 1) ''--h''")
    case True
    then have "run e argv = halt [] Usage" by (auto simp: run_def)
    with u show ?thesis by simp
  next
    case False
    show ?thesis
    proof (cases "parse_args argv")
      case (Inl f)
      with False have "run e argv = halt ([] @ fst f) (snd f)"
        by (auto simp: run_def split: prod.splits)
      with halted_pre_fail[OF wn parse_loop_fail[OF Inl[unfolded parse_args_def]]]
      show ?thesis by simp
    next
      case (Inr st)
      with False have "run e argv = finish e st" by (auto simp: run_def)
      with finish_shape[of e st] show ?thesis by simp
    qed
  qed
qed

lemma field_line_slash: "\<not> field_line ''/''"
  by (simp add: field_line_def)

section \<open>What a run prints\<close>

lemma all_inr_map: "\<forall>t\<in>set toks. \<not> isl t \<Longrightarrow> toks = map Inr (map projr toks)"
  by (induction toks) (auto simp: sum.collapse)

lemma add_tokens_inr: "\<exists>ps l. add_tokens line (map Inr ts) = (ps, Inr l)"
  using add_tokens_groups[of line ts] by blast

lemma emit_field_inr: "snd (emit_field p (map Inr ts)) = None"
proof -
  from add_tokens_inr[of p ts] obtain ps l where "add_tokens p (map Inr ts) = (ps, Inr l)"
    by blast
  then show ?thesis by (simp add: emit_field_def)
qed

lemma emit_field_all_ok: "\<forall>t\<in>set toks. \<not> isl t \<Longrightarrow> snd (emit_field p toks) = None"
  using all_inr_map[of toks] emit_field_inr[of p "map projr toks"] by simp

lemma add_tokens_first_fail:
  "\<exists>t\<in>set toks. isl t \<Longrightarrow> \<exists>ps f. add_tokens line toks = (ps, Inl f) \<and> Inl f \<in> set toks"
proof (induction line toks rule: add_tokens.induct)
  case (1 line)
  then show ?case by simp
next
  case (2 line f ts)
  then show ?case by simp
next
  case (3 line t ts)
  obtain p l where a: "addOn line t = (p, l)" by (cases "addOn line t")
  from "3.prems" have "\<exists>t\<in>set ts. isl t" by simp
  from "3.IH"[OF a[symmetric] this] obtain ps f where
    "add_tokens l ts = (ps, Inl f)" "Inl f \<in> set ts" by blast
  with a show ?case by simp
qed

lemma emit_field_first_fail:
  "\<exists>t\<in>set toks. isl t \<Longrightarrow> \<exists>ls f. emit_field p toks = (ls, Some f) \<and> Inl f \<in> set toks"
proof -
  assume "\<exists>t\<in>set toks. isl t"
  from add_tokens_first_fail[OF this, of p] obtain ps f where
    "add_tokens p toks = (ps, Inl f)" "Inl f \<in> set toks" by blast
  then show ?thesis by (simp add: emit_field_def)
qed

lemma emit_field_None_all_inr:
  assumes "snd (emit_field p toks) = None"
  shows "\<forall>t\<in>set toks. \<not> isl t"
proof (rule ccontr)
  assume "\<not> (\<forall>t\<in>set toks. \<not> isl t)"
  then have "\<exists>t\<in>set toks. isl t" by blast
  from emit_field_first_fail[OF this, of p] assms show False by auto
qed

lemma run_fields_None:
  "run_fields fs = (ls, None) \<Longrightarrow>
     ls = concat (map (\<lambda>a. fst (emit_field (fst a) (snd a))) fs) \<and>
     (\<forall>a\<in>set fs. snd (emit_field (fst a) (snd a)) = None)"
proof (induction fs arbitrary: ls)
  case Nil
  then show ?case by simp
next
  case (Cons a fs)
  obtain p toks where a: "a = (p, toks)" by (cases a)
  obtain l1 r1 where e: "emit_field p toks = (l1, r1)" by (cases "emit_field p toks")
  obtain l2 r2 where r: "run_fields fs = (l2, r2)" by (cases "run_fields fs")
  from Cons.prems a e r have n: "r1 = None" "r2 = None" "ls = l1 @ l2"
    by (auto split: option.splits)
  from Cons.IH[OF r[unfolded n(2)]] a e n show ?case by simp
qed

lemma those_None_iff: "those xs = None \<longleftrightarrow> None \<in> set xs"
  by (induction xs) (auto split: option.splits)

lemma those_map_Some: "those (map Some ds) = Some ds"
  by (induction ds) auto

lemma those_Some_map: "those xs = Some ds \<Longrightarrow> xs = map Some ds"
  by (induction xs arbitrary: ds) (auto split: option.splits)

lemma chrgdat_fail_exact: "Inl f \<in> set (chrgdat_tokens rd) \<Longrightarrow> f = lookup_fail"
  by (auto simp: chrgdat_tokens_def split: option.splits)

lemma chrgdat_has_inl: "None \<in> set rd \<Longrightarrow> \<exists>t\<in>set (chrgdat_tokens rd). isl t"
  by (force simp: chrgdat_tokens_def)

lemma chrgdat_all_inr: "\<forall>t\<in>set (chrgdat_tokens (map Some ds)). \<not> isl t"
  by (auto simp: chrgdat_tokens_def)

lemma column_all_inr:
  "\<forall>d\<in>set ds. \<forall>row\<in>set d. 2 \<le> length row \<Longrightarrow> \<forall>t\<in>set (column_tokens 1 ds). \<not> isl t"
  by (fastforce simp: column_tokens_def py_get_def)

lemma resname_all_inr: "\<forall>t\<in>set (resname_tokens s). \<not> isl t"
  by (auto simp: resname_tokens_def)

lemma resstate_fail_exact:
  "Inl f \<in> set (resstate_tokens nd s sts) \<Longrightarrow> f = ([msg_range], SysExit)"
  by (auto simp: resstate_tokens_def split: if_splits)

lemma resstate_has_inl:
  assumes "length sts = length s" "i < length s" "(snd (s ! i), d) \<in> set nd"
      and "sts ! i < 0 \<or> int (length d) \<le> sts ! i"
  shows "\<exists>t\<in>set (resstate_tokens nd s sts). isl t"
proof -
  obtain n nm where p: "s ! i = (n, nm)" by (cases "s ! i")
  from assms(1,2) have z: "i < length (zip s sts)" "zip s sts ! i = ((n, nm), sts ! i)"
    by (simp_all add: p)
  have len: "length (resstate_tokens nd s sts) = length (zip s sts)"
    by (simp add: resstate_tokens_def)
  from assms(3,4) p have "list_ex (\<lambda>(name, d). nm = name \<and> (sts ! i < 0 \<or> sts ! i \<ge> int (length d))) nd"
    by (auto simp: list_ex_iff)
  with z have "resstate_tokens nd s sts ! i = Inl ([msg_range], SysExit)"
    by (simp add: resstate_tokens_def)
  moreover from z(1) len have "resstate_tokens nd s sts ! i \<in> set (resstate_tokens nd s sts)"
    by (simp del: length_zip)
  ultimately show ?thesis by force
qed

lemma emit_lookup:
  assumes "None \<in> set rd"
  shows "\<exists>ls. list_all field_line ls \<and>
           emit ptrs names rd s sts w =
             \<lparr>out = ''&CNSTPH'' # ls, err = w @ [msg_lookup], status = SysExit\<rparr>"
proof -
  from emit_field_first_fail[OF chrgdat_has_inl[OF assms], of "'' CHRGDAT=''"]
  obtain ls f where e: "emit_field '' CHRGDAT='' (chrgdat_tokens rd) = (ls, Some f)"
    "Inl f \<in> set (chrgdat_tokens rd)" by blast
  from chrgdat_fail_exact[OF e(2)] have f: "f = lookup_fail" .
  have fl: "field_line '' CHRGDAT=''" by (simp add: field_line_def)
  from emit_field_lines[OF fl e(1)] have l: "list_all field_line ls" .
  from assms have "those rd = None" by (simp add: those_None_iff)
  with e(1) f have "emit ptrs names rd s sts w =
             \<lparr>out = ''&CNSTPH'' # ls, err = w @ [msg_lookup], status = SysExit\<rparr>"
    by (simp add: emit_def record_fields_def lookup_fail_def)
  with l show ?thesis by blast
qed

lemma emit_range:
  assumes "\<forall>d\<in>set ds. \<forall>row\<in>set d. 2 \<le> length row" "length sts = length s" "i < length s"
      and "(snd (s ! i), d) \<in> set (zip names ds)"
      and "sts ! i < 0 \<or> int (length d) \<le> sts ! i"
  shows "\<exists>ls. list_all field_line ls \<and>
           emit ptrs names (map Some ds) s sts w =
             \<lparr>out = ''&CNSTPH'' # ls, err = w @ [msg_range], status = SysExit\<rparr>"
proof -
  let ?fs = "record_fields ptrs names (map Some ds) s sts"
  obtain l1 where e1: "emit_field '' CHRGDAT='' (chrgdat_tokens (map Some ds)) = (l1, None)"
    using emit_field_all_ok[OF chrgdat_all_inr, of "'' CHRGDAT=''" ds]
    by (cases "emit_field '' CHRGDAT='' (chrgdat_tokens (map Some ds))") auto
  obtain l2 where e2: "emit_field '' PROTCNT='' (column_tokens 1 ds) = (l2, None)"
    using emit_field_all_ok[OF column_all_inr[OF assms(1)], of "'' PROTCNT=''"]
    by (cases "emit_field '' PROTCNT='' (column_tokens 1 ds)") auto
  obtain l3 where e3: "emit_field resname_prefix (resname_tokens s) = (l3, None)"
    using emit_field_all_ok[OF resname_all_inr, of resname_prefix s]
    by (cases "emit_field resname_prefix (resname_tokens s)") auto
  from emit_field_first_fail[OF resstate_has_inl[OF assms(2,3,4,5)], of "'' RESSTATE=''"]
  obtain l4 f where e4: "emit_field '' RESSTATE='' (resstate_tokens (zip names ds) s sts) = (l4, Some f)"
    "Inl f \<in> set (resstate_tokens (zip names ds) s sts)" by blast
  from resstate_fail_exact[OF e4(2)] have f: "f = ([msg_range], SysExit)" .
  have rf: "run_fields ?fs = (l1 @ l2 @ l3 @ l4, Some ([msg_range], SysExit))"
    using e1 e2 e3 e4(1) f by (simp add: record_fields_def those_map_Some)
  from run_fields_lines[OF record_fields_prefix rf] have "list_all field_line (l1 @ l2 @ l3 @ l4)" .
  moreover from rf have "emit ptrs names (map Some ds) s sts w =
       \<lparr>out = ''&CNSTPH'' # (l1 @ l2 @ l3 @ l4), err = w @ [msg_range], status = SysExit\<rparr>"
    by (simp add: emit_def)
  ultimately show ?thesis by blast
qed

lemma emit_completed_layout:
  assumes "status (emit ptrs names rd s sts w) = Completed"
  shows "\<exists>ds. rd = map Some ds \<and>
     out (emit ptrs names rd s sts w) =
       ''&CNSTPH'' #
       (fst (emit_field '' CHRGDAT='' (chrgdat_tokens rd)) @
        fst (emit_field '' PROTCNT='' (column_tokens 1 ds)) @
        fst (emit_field resname_prefix (resname_tokens s)) @
        fst (emit_field '' RESSTATE='' (resstate_tokens (zip names ds) s sts)) @
        fst (emit_field '' '' (stateinf_tokens ptrs (zip names ds) 0 None s)) @
        fst (emit_field '' STATENE='' (column_tokens 0 ds))) @
       [trescnt_line s, ''/''] \<and>
     err (emit ptrs names rd s sts w) = w @ [''CPin created!''] \<and>
     (\<forall>t\<in>set (resstate_tokens (zip names ds) s sts). \<not> isl t) \<and>
     (\<forall>t\<in>set (stateinf_tokens ptrs (zip names ds) 0 None s). \<not> isl t)"
proof -
  let ?fs = "record_fields ptrs names rd s sts"
  obtain ls r where rf: "run_fields ?fs = (ls, r)" by (cases "run_fields ?fs")
  have r: "r = None"
  proof (cases r)
    case None
    then show ?thesis .
  next
    case (Some f)
    from run_fields_fail[OF rf[unfolded Some]] record_fields_fail have "token_fail f" by blast
    from token_fail_not_completed[OF this] rf Some assms show ?thesis
      by (simp add: emit_def split: prod.splits)
  qed
  note rn = run_fields_None[OF rf[unfolded r]]
  have "those rd \<noteq> None"
  proof
    assume n: "those rd = None"
    then have "None \<in> set rd" by (simp add: those_None_iff)
    from emit_field_first_fail[OF chrgdat_has_inl[OF this], of "'' CHRGDAT=''"]
    obtain l f where "emit_field '' CHRGDAT='' (chrgdat_tokens rd) = (l, Some f)" by blast
    moreover from rn n have "snd (emit_field '' CHRGDAT='' (chrgdat_tokens rd)) = None"
      by (simp add: record_fields_def)
    ultimately show False by simp
  qed
  then obtain ds where th: "those rd = Some ds" by auto
  from those_Some_map[OF th] have rd: "rd = map Some ds" .
  from rn th have ls: "ls =
        fst (emit_field '' CHRGDAT='' (chrgdat_tokens rd)) @
        fst (emit_field '' PROTCNT='' (column_tokens 1 ds)) @
        fst (emit_field resname_prefix (resname_tokens s)) @
        fst (emit_field '' RESSTATE='' (resstate_tokens (zip names ds) s sts)) @
        fst (emit_field '' '' (stateinf_tokens ptrs (zip names ds) 0 None s)) @
        fst (emit_field '' STATENE='' (column_tokens 0 ds))"
    and n4: "snd (emit_field '' RESSTATE='' (resstate_tokens (zip names ds) s sts)) = None"
    and n5: "snd (emit_field '' '' (stateinf_tokens ptrs (zip names ds) 0 None s)) = None"
    by (simp_all add: record_fields_def)
  from rf r have "out (emit ptrs names rd s sts w) = ''&CNSTPH'' # ls @ [trescnt_line s, ''/'']"
    "err (emit ptrs names rd s sts w) = w @ [''CPin created!'']"
    by (simp_all add: emit_def)
  with rd ls emit_field_None_all_inr[OF n4] emit_field_None_all_inr[OF n5]
  show ?thesis by blast
qed

lemma run_parsed: "parsed argv st \<Longrightarrow> run e argv = finish e st"
  by (auto simp: run_def parsed_def asks_help_def)

lemma run_file_missing:
  "parsed argv st \<Longrightarrow> fileexists e (prmtop st) = - 1 \<Longrightarrow> run e argv = halt [] SysExit"
  by (simp add: run_parsed finish_def)

lemma run_radius:
  "parsed argv st \<Longrightarrow> fileexists e (prmtop st) \<noteq> - 1 \<Longrightarrow> \<not> ignore_warn st \<Longrightarrow>
   getbondiset e (prmtop st) \<noteq> mbondi2 \<Longrightarrow> run e argv = halt (warnings st @ msg_radius) SysExit"
  by (simp add: run_parsed finish_def warnings_def Let_def)

lemma run_no_records:
  "parsed argv st \<Longrightarrow> fileexists e (prmtop st) \<noteq> - 1 \<Longrightarrow>
   ignore_warn st \<or> getbondiset e (prmtop st) = mbondi2 \<Longrightarrow>
   residue_labels e (prmtop st) = [] \<or> residue_pointers e (prmtop st) = [] \<Longrightarrow>
   run e argv = halt (warnings st @ msg_labels (prmtop st)) SysExit"
  by (auto simp: run_parsed finish_def warnings_def Let_def)

lemma finish_loaded:
  assumes "loaded e argv st"
  shows "finish e st =
     (case convert e st (igb_string st) of
        Inl (msgs, oc) \<Rightarrow> halt (warnings st @ msgs) oc
      | Inr p \<Rightarrow>
          (case pka_filter e (minpKa_f p) (maxpKa_f p)
                  (zip (split_ws titratable) (split_ws exp_pkas)) of
             Some ex \<Rightarrow> halt (warnings st) (Uncaught ex)
           | None \<Rightarrow>
               (case select_residues (prmtop st) (residue_labels e (prmtop st))
                       (titrate_residues st) (resnums_n p) (notresnums_n p) of
                  Inl (msgs, oc) \<Rightarrow> halt (warnings st @ msgs) oc
                | Inr s \<Rightarrow>
                    (case initial_states (states_n p) s of
                       Inl (msgs, oc) \<Rightarrow> halt (warnings st @ msgs) oc
                     | Inr sts \<Rightarrow>
                         emit (residue_pointers e (prmtop st)) (dedup_names s)
                           (map (\<lambda>nm. getData e nm (igb_n p)) (dedup_names s))
                           s sts (warnings st)))))"
proof -
  from assms have a: "fileexists e (prmtop st) \<noteq> - 1"
    "ignore_warn st \<or> getbondiset e (prmtop st) = mbondi2"
    "residue_labels e (prmtop st) \<noteq> []" "residue_pointers e (prmtop st) \<noteq> []"
    by (simp_all add: loaded_def)
  have b: "\<not> (\<not> ignore_warn st \<and> getbondiset e (prmtop st) \<noteq> mbondi2)" using a(2) by blast
  have c: "\<not> (residue_labels e (prmtop st) = [] \<or> residue_pointers e (prmtop st) = [])"
    using a(3,4) by blast
  show ?thesis
    unfolding finish_def Let_def igb_string_def[symmetric] warnings_def[symmetric]
    by (simp only: a(1) b c if_False)
qed

lemma run_select_fail:
  assumes "converted e argv st p"
      and "select_residues (prmtop st) (residue_labels e (prmtop st)) (titrate_residues st)
             (resnums_n p) (notresnums_n p) = Inl (msgs, oc)"
  shows "run e argv = halt (warnings st @ msgs) oc"
proof -
  from assms(1) have l: "loaded e argv st" "parsed argv st"
    by (simp_all add: converted_def loaded_def)
  from assms show ?thesis
    by (simp add: run_parsed[OF l(2)] finish_loaded[OF l(1)] converted_def)
qed

lemma run_states_fail:
  assumes "selected e argv st p s" and "initial_states (states_n p) s = Inl (msgs, oc)"
  shows "run e argv = halt (warnings st @ msgs) oc"
proof -
  from assms(1) have l: "loaded e argv st" "parsed argv st"
    by (simp_all add: selected_def converted_def loaded_def)
  from assms show ?thesis
    by (simp add: run_parsed[OF l(2)] finish_loaded[OF l(1)] selected_def converted_def)
qed

lemma run_started:
  assumes "record_started e argv st p s sts"
  shows "run e argv = emit (residue_pointers e (prmtop st)) (dedup_names s)
                        (map (\<lambda>nm. getData e nm (igb_n p)) (dedup_names s)) s sts (warnings st)"
proof -
  from assms have l: "loaded e argv st" "parsed argv st"
    by (simp_all add: record_started_def selected_def converted_def loaded_def)
  from assms show ?thesis
    by (simp add: run_parsed[OF l(2)] finish_loaded[OF l(1)] record_started_def selected_def
          converted_def)
qed

lemma initial_states_length: "initial_states sts0 s = Inr sts \<Longrightarrow> length sts = length s"
  by (auto simp: initial_states_def split: if_splits)

lemma scan_offsets_result:
  assumes "distinct (map fst nd)" "k < length nd" "scan_offsets (fst (nd ! k)) nd c s = Inr r"
  shows "r = (c + (\<Sum>j<k. (int (length (hd (snd (nd ! j)))) - 2) * int (length (snd (nd ! j)))),
              s + (\<Sum>j<k. int (length (snd (nd ! j)))),
              Some (int (length (hd (snd (nd ! k)))) - 2, int (length (snd (nd ! k)))))"
  using assms
proof (induction nd arbitrary: k c s)
  case Nil
  then show ?case by simp
next
  case (Cons q nd)
  obtain name d where q: "q = (name, d)" by (cases q)
  from Cons.prems(3) q obtain row rows where d: "d = row # rows"
    by (cases d) auto
  show ?case
  proof (cases k)
    case 0
    with Cons.prems(3) show ?thesis by (simp add: q d)
  next
    case (Suc k')
    from Cons.prems(2) Suc have "fst (nd ! k') \<in> fst ` set nd" by simp
    with Cons.prems(1) q have ne: "fst (nd ! k') \<noteq> name" by auto
    from Cons.prems Suc have pre: "distinct (map fst nd)" "k' < length nd" by auto
    from Cons.prems(3) ne have
      "scan_offsets (fst (nd ! k')) nd (c + (int (length row) - 2) * int (length d))
          (s + int (length d)) = Inr r"
      by (simp add: Suc q d)
    note ih = Cons.IH[OF pre this]
    have s1: "(\<Sum>j<k. (int (length (hd (snd ((q # nd) ! j)))) - 2) * int (length (snd ((q # nd) ! j))))
        = (int (length row) - 2) * int (length d) +
          (\<Sum>j<k'. (int (length (hd (snd (nd ! j)))) - 2) * int (length (snd (nd ! j))))"
      unfolding Suc by (simp add: sum.lessThan_Suc_shift q d del: sum.lessThan_Suc)
    have s2: "(\<Sum>j<k. int (length (snd ((q # nd) ! j))))
        = int (length d) + (\<Sum>j<k'. int (length (snd (nd ! j))))"
      unfolding Suc by (simp add: sum.lessThan_Suc_shift q del: sum.lessThan_Suc)
    show ?thesis unfolding s1 s2 using ih by (simp add: Suc)
  qed
qed

lemma scan_offsets_zip_result:
  assumes "distinct names" "length ds = length names" "k < length names"
      and "scan_offsets (names ! k) (zip names ds) 0 0 = Inr r"
  shows "r = ((\<Sum>j<k. (int (length (hd (ds ! j))) - 2) * int (length (ds ! j))),
              (\<Sum>j<k. int (length (ds ! j))),
              Some (int (length (hd (ds ! k))) - 2, int (length (ds ! k))))"
proof -
  have a: "distinct (map fst (zip names ds))" using assms(1,2) by simp
  have b: "k < length (zip names ds)" using assms(2,3) by simp
  have f: "fst (zip names ds ! k) = names ! k" using assms(2,3) by simp
  have "\<And>j. j < k \<Longrightarrow> snd (zip names ds ! j) = ds ! j" using assms(2,3) by simp
  then have e: "(\<Sum>j<k. (int (length (hd (snd (zip names ds ! j)))) - 2) * int (length (snd (zip names ds ! j))))
        = (\<Sum>j<k. (int (length (hd (ds ! j))) - 2) * int (length (ds ! j)))"
       "(\<Sum>j<k. int (length (snd (zip names ds ! j)))) = (\<Sum>j<k. int (length (ds ! j)))"
    by auto
  from scan_offsets_result[OF a b, of 0 0 r] assms(4) f e show ?thesis
    using assms(2,3) by simp
qed

lemma stateinf_tokens_text:
  assumes "distinct names" "length ds = length names" "\<forall>q\<in>set s. snd q \<in> set names"
      and "\<forall>t\<in>set (stateinf_tokens ptrs (zip names ds) x prev s). \<not> isl t"
  shows "length (stateinf_tokens ptrs (zip names ds) x prev s) = 5 * length s \<and>
         (\<forall>i k. i < length s \<and> k < length names \<and> snd (s ! i) = names ! k \<longrightarrow>
            stateinf_tokens ptrs (zip names ds) x prev s ! (5 * i + 1) =
              Inr (''STATEINF('' @ str_int (int (x + i)) @ '')%FIRST_CHARGE='' @
                   str_int (\<Sum>j<k. (int (length (hd (ds ! j))) - 2) * int (length (ds ! j))) @
                   '', '') \<and>
            stateinf_tokens ptrs (zip names ds) x prev s ! (5 * i + 2) =
              Inr (''STATEINF('' @ str_int (int (x + i)) @ '')%FIRST_STATE='' @
                   str_int (\<Sum>j<k. int (length (ds ! j))) @ '', ''))"
  using assms(3,4)
proof (induction s arbitrary: x prev)
  case Nil
  then show ?case by simp
next
  case (Cons q s)
  obtain n nm where q: "q = (n, nm)" by (cases q)
  from Cons.prems(1) q obtain k' where k': "k' < length names" "nm = names ! k'"
    by (auto simp: in_set_conv_nth)
  let ?T = "stateinf_tokens ptrs (zip names ds) x prev (q # s)"
  from Cons.prems(2) obtain h where h: "py_get ptrs (n - 1) = Inr h"
    by (cases "py_get ptrs (n - 1)") (auto simp: q raise_def)
  from Cons.prems(2) h obtain r where r: "scan_offsets nm (zip names ds) 0 0 = Inr r"
    by (cases "scan_offsets nm (zip names ds) 0 0") (auto simp: q raise_def)
  from scan_offsets_zip_result[OF assms(1,2) k'(1) r[unfolded k'(2)]]
  have rv: "r = ((\<Sum>j<k'. (int (length (hd (ds ! j))) - 2) * int (length (ds ! j))),
              (\<Sum>j<k'. int (length (ds ! j))),
              Some (int (length (hd (ds ! k'))) - 2, int (length (ds ! k'))))" .
  let ?rest = "stateinf_tokens ptrs (zip names ds) (Suc x)
                 (Some (int (length (hd (ds ! k'))) - 2, int (length (ds ! k')))) s"
  have tok: "?T =
      Inr (stateinf x ''FIRST_ATOM'' h) #
      Inr (stateinf x ''FIRST_CHARGE''
             (str_int (\<Sum>j<k'. (int (length (hd (ds ! j))) - 2) * int (length (ds ! j))))) #
      Inr (stateinf x ''FIRST_STATE'' (str_int (\<Sum>j<k'. int (length (ds ! j))))) #
      Inr (stateinf x ''NUM_ATOMS'' (str_int (int (length (hd (ds ! k'))) - 2))) #
      Inr (stateinf x ''NUM_STATES'' (str_int (int (length (ds ! k'))))) # ?rest"
    using h r rv by (simp add: q)
  from Cons.prems(2) tok have pr: "\<forall>t\<in>set ?rest. \<not> isl t" by simp
  from Cons.prems(1) have pn: "\<forall>q\<in>set s. snd q \<in> set names" by simp
  note ih = Cons.IH[OF pn pr]
  have len: "length ?T = 5 * length (q # s)" using tok ih by simp
  have nth: "?T ! (5 * i + 1) =
              Inr (''STATEINF('' @ str_int (int (x + i)) @ '')%FIRST_CHARGE='' @
                   str_int (\<Sum>j<k. (int (length (hd (ds ! j))) - 2) * int (length (ds ! j))) @
                   '', '') \<and>
            ?T ! (5 * i + 2) =
              Inr (''STATEINF('' @ str_int (int (x + i)) @ '')%FIRST_STATE='' @
                   str_int (\<Sum>j<k. int (length (ds ! j))) @ '', '')"
    if a: "i < length (q # s)" "k < length names" "snd ((q # s) ! i) = names ! k" for i k
  proof (cases i)
    case 0
    with a(3) q k'(2) have "names ! k' = names ! k" by simp
    with assms(1) a(2) k'(1) have "k' = k" by (simp add: nth_eq_iff_index_eq)
    with 0 tok show ?thesis by (simp add: stateinf_def)
  next
    case (Suc i')
    with a have "i' < length s" "snd (s ! i') = names ! k" by auto
    with ih a(2) have
      "?rest ! (5 * i' + 1) =
          Inr (''STATEINF('' @ str_int (int (Suc x + i')) @ '')%FIRST_CHARGE='' @
               str_int (\<Sum>j<k. (int (length (hd (ds ! j))) - 2) * int (length (ds ! j))) @ '', '')"
      "?rest ! (5 * i' + 2) =
          Inr (''STATEINF('' @ str_int (int (Suc x + i')) @ '')%FIRST_STATE='' @
               str_int (\<Sum>j<k. int (length (ds ! j))) @ '', '')"
      by blast+
    with tok Suc show ?thesis by simp
  qed
  from len nth show ?case by blast
qed

lemma concat_map_concat: "concat (map concat xs) = concat (concat xs)"
  by (induction xs) simp_all

lemma emit_field_text:
  "concat (map tl (fst (emit_field (CHR '' '' # pre) (map Inr ts)))) = pre @ concat ts"
proof -
  from add_tokens_groups[of "CHR '' '' # pre" ts] obtain ps l gs where
    h: "add_tokens (CHR '' '' # pre) (map Inr ts) = (ps, Inr l)" "concat gs = ts" "gs \<noteq> []"
       "ps @ [l] = ((CHR '' '' # pre) @ concat (hd gs)) # map (\<lambda>g. '' '' @ concat g) (tl gs)"
    by blast
  from h(1) have "fst (emit_field (CHR '' '' # pre) (map Inr ts)) = ps @ [l]"
    by (simp add: emit_field_def)
  then have "concat (map tl (fst (emit_field (CHR '' '' # pre) (map Inr ts))))
      = pre @ concat (hd gs) @ concat (map concat (tl gs))"
    unfolding h(4) by (simp add: comp_def)
  also have "\<dots> = pre @ concat (concat gs)"
    using h(3) by (cases gs) (simp_all add: concat_map_concat)
  finally show ?thesis using h(2) by simp
qed

lemma pre_fail_not_completed: "pre_fail f \<Longrightarrow> snd f \<noteq> Completed"
  by (simp add: pre_fail_def)

lemma run_completed_emit:
  assumes "status (run e argv) = Completed"
  shows "\<exists>ptrs names rd s sts w. run e argv = emit ptrs names rd s sts w"
proof (cases "asks_help argv")
  case True
  then have "run e argv = halt [] Usage" by (auto simp: run_def asks_help_def)
  with assms show ?thesis by (simp add: halt_def)
next
  case False
  show ?thesis
  proof (cases "parse_args argv")
    case (Inl f)
    with False have "run e argv = halt (fst f) (snd f)"
      by (auto simp: run_def asks_help_def split: prod.splits)
    with assms pre_fail_not_completed[OF parse_loop_fail[OF Inl[unfolded parse_args_def]]]
    show ?thesis by (simp add: halt_def)
  next
    case (Inr st)
    with False have r: "run e argv = finish e st" by (auto simp: run_def asks_help_def)
    from assms r shape_halted_not_completed have "\<not> shape_halted (finish e st)" by auto
    with finish_cases[of e st] r show ?thesis by metis
  qed
qed

lemma emit_field_head:
  "\<exists>rest more. fst (emit_field p (map Inr ts)) = (p @ rest) # more"
proof -
  from add_tokens_groups[of p ts] obtain ps l gs where
    h: "add_tokens p (map Inr ts) = (ps, Inr l)"
       "ps @ [l] = (p @ concat (hd gs)) # map (\<lambda>g. '' '' @ concat g) (tl gs)"
    by blast
  from h(1) have "fst (emit_field p (map Inr ts)) = ps @ [l]" by (simp add: emit_field_def)
  with h(2) show ?thesis by metis
qed

lemma run_completed_label:
  assumes "status (run e argv) = Completed"
  shows "\<exists>before rest more after.
           out (run e argv) =
             before @
             (('' RESNAME='' @ [quote] @ ''System: Unknown'' @ [quote] @ '','' @ rest) # more) @
             after"
proof -
  from run_completed_emit[OF assms] obtain ptrs names rd s sts w where
    r: "run e argv = emit ptrs names rd s sts w" by blast
  from assms r have "status (emit ptrs names rd s sts w) = Completed" by simp
  from emit_completed_layout[OF this] obtain ds where
    l: "out (emit ptrs names rd s sts w) =
         ''&CNSTPH'' #
         (fst (emit_field '' CHRGDAT='' (chrgdat_tokens rd)) @
          fst (emit_field '' PROTCNT='' (column_tokens 1 ds)) @
          fst (emit_field resname_prefix (resname_tokens s)) @
          fst (emit_field '' RESSTATE='' (resstate_tokens (zip names ds) s sts)) @
          fst (emit_field '' '' (stateinf_tokens ptrs (zip names ds) 0 None s)) @
          fst (emit_field '' STATENE='' (column_tokens 0 ds))) @
         [trescnt_line s, ''/'']"
    by blast
  have "resname_tokens s = map Inr (map projr (resname_tokens s))"
    by (rule all_inr_map[OF resname_all_inr])
  with emit_field_head[of resname_prefix "map projr (resname_tokens s)"]
  obtain rest more where
    h: "fst (emit_field resname_prefix (resname_tokens s)) = (resname_prefix @ rest) # more"
    by auto
  let ?before = "''&CNSTPH'' #
         (fst (emit_field '' CHRGDAT='' (chrgdat_tokens rd)) @
          fst (emit_field '' PROTCNT='' (column_tokens 1 ds)))"
  let ?after = "fst (emit_field '' RESSTATE='' (resstate_tokens (zip names ds) s sts)) @
          fst (emit_field '' '' (stateinf_tokens ptrs (zip names ds) 0 None s)) @
          fst (emit_field '' STATENE='' (column_tokens 0 ds)) @
         [trescnt_line s, ''/'']"
  from l r h have "out (run e argv) =
      ?before @ (('' RESNAME='' @ [quote] @ ''System: Unknown'' @ [quote] @ '','' @ rest) # more) @ ?after"
    by (simp add: resname_prefix_def)
  then show ?thesis by blast
qed

section \<open>Failures after the header\<close>

text \<open>
  Claim C2, as the code has it. Let the run reach line 286, where the header is printed.
  If one of the deduplicated names has no entry in the reference table, the run ends by
  \<^verbatim>\<open>sys.exit()\<close> with the message of the failed lookup on the error stream. If every name
  has an entry whose rows carry an energy and a proton count, and the initial state of some
  selected residue is negative or not below the number of states of its name, the run ends by
  \<^verbatim>\<open>sys.exit()\<close> with the message of the range test. In both cases standard output holds
  the header line \<^verbatim>\<open>&CNSTPH\<close> followed by the lines of fields printed so far, and never the
  closing line \<^verbatim>\<open>/\<close>.
\<close>

theorem lookup_and_range_failures_abort:
  assumes "record_started e argv st p s sts"
  shows "((\<exists>nm\<in>set (dedup_names s). getData e nm (igb_n p) = None) \<longrightarrow>
            status (run e argv) = SysExit \<and> err (run e argv) = warnings st @ [msg_lookup] \<and>
            (\<exists>ls. out (run e argv) = ''&CNSTPH'' # ls \<and> ''/'' \<notin> set ls)) \<and>
         (\<forall>ds i k. map (\<lambda>nm. getData e nm (igb_n p)) (dedup_names s) = map Some ds \<and>
              (\<forall>d\<in>set ds. \<forall>row\<in>set d. 2 \<le> length row) \<and>
              i < length s \<and> k < length ds \<and> snd (s ! i) = dedup_names s ! k \<and>
              (sts ! i < 0 \<or> int (length (ds ! k)) \<le> sts ! i) \<longrightarrow>
            status (run e argv) = SysExit \<and> err (run e argv) = warnings st @ [msg_range] \<and>
            (\<exists>ls. out (run e argv) = ''&CNSTPH'' # ls \<and> ''/'' \<notin> set ls))"
proof -
  let ?names = "dedup_names s"
  let ?ptrs = "residue_pointers e (prmtop st)"
  let ?rd = "map (\<lambda>nm. getData e nm (igb_n p)) ?names"
  note r = run_started[OF assms]
  from assms have "initial_states (states_n p) s = Inr sts" by (simp add: record_started_def)
  from initial_states_length[OF this] have ls: "length sts = length s" .
  have slash: "list_all field_line l \<Longrightarrow> ''/'' \<notin> set l" for l
    using field_line_slash by (auto simp: list_all_iff)
  have A: "status (run e argv) = SysExit \<and> err (run e argv) = warnings st @ [msg_lookup] \<and>
            (\<exists>ls. out (run e argv) = ''&CNSTPH'' # ls \<and> ''/'' \<notin> set ls)"
    if "\<exists>nm\<in>set ?names. getData e nm (igb_n p) = None"
  proof -
    from that have "None \<in> set ?rd" by force
    from emit_lookup[OF this, of ?ptrs ?names s sts "warnings st"] obtain l where
      "list_all field_line l"
      "emit ?ptrs ?names ?rd s sts (warnings st) =
         \<lparr>out = ''&CNSTPH'' # l, err = warnings st @ [msg_lookup], status = SysExit\<rparr>"
      by blast
    with r slash[of l] show ?thesis by simp
  qed
  have B: "status (run e argv) = SysExit \<and> err (run e argv) = warnings st @ [msg_range] \<and>
            (\<exists>ls. out (run e argv) = ''&CNSTPH'' # ls \<and> ''/'' \<notin> set ls)"
    if b: "?rd = map Some ds" "\<forall>d\<in>set ds. \<forall>row\<in>set d. 2 \<le> length row"
       "i < length s" "k < length ds" "snd (s ! i) = ?names ! k"
       "sts ! i < 0 \<or> int (length (ds ! k)) \<le> sts ! i" for ds i k
  proof -
    from b(1) have "length ds = length ?names" by (metis length_map)
    with b(4,5) have z: "(snd (s ! i), ds ! k) \<in> set (zip ?names ds)"
      by (auto simp: in_set_zip)
    from emit_range[OF b(2) ls b(3) z b(6), of ?ptrs "warnings st"] obtain l where
      "list_all field_line l"
      "emit ?ptrs ?names (map Some ds) s sts (warnings st) =
         \<lparr>out = ''&CNSTPH'' # l, err = warnings st @ [msg_range], status = SysExit\<rparr>"
      by blast
    with r b(1) slash[of l] show ?thesis by simp
  qed
  from A B show ?thesis by blast
qed

theorem lookup_and_range_failures_abort_witness:
  "record_started (demo_env [''ALA'', ''GLU'', ''AS4'', ''LYS''])
      [''cpinutil.py'', ''-p'', ''a.top'', ''-igb'', ''5''] demo_opts (demo_params [])
      [(3, ''AS4''), (4, ''LYS'')] [0, 0] \<and>
   getData (demo_env [''ALA'', ''GLU'', ''AS4'', ''LYS'']) ''LYS'' 5 = None \<and>
   status (run (demo_env [''ALA'', ''GLU'', ''AS4'', ''LYS''])
              [''cpinutil.py'', ''-p'', ''a.top'', ''-igb'', ''5'']) = SysExit \<and>
   (\<exists>ls. out (run (demo_env [''ALA'', ''GLU'', ''AS4'', ''LYS''])
                   [''cpinutil.py'', ''-p'', ''a.top'', ''-igb'', ''5'']) = ''&CNSTPH'' # ls \<and>
         ''/'' \<notin> set ls) \<and>
   record_started (demo_env [''ALA'', ''GLU'', ''AS4'', ''TYR''])
      [''cpinutil.py'', ''-p'', ''a.top'', ''-igb'', ''5'', ''-states'', ''0,-1'']
      (demo_opts\<lparr>residue_states := [''0'', ''-1'']\<rparr>) (demo_params [0, - 1])
      [(3, ''AS4''), (4, ''TYR'')] [0, - 1] \<and>
   status (run (demo_env [''ALA'', ''GLU'', ''AS4'', ''TYR''])
              [''cpinutil.py'', ''-p'', ''a.top'', ''-igb'', ''5'', ''-states'', ''0,-1'']) = SysExit \<and>
   err (run (demo_env [''ALA'', ''GLU'', ''AS4'', ''TYR''])
              [''cpinutil.py'', ''-p'', ''a.top'', ''-igb'', ''5'', ''-states'', ''0,-1''])
     = [msg_range]"
proof -
  let ?e1 = "demo_env [''ALA'', ''GLU'', ''AS4'', ''LYS'']"
  let ?a1 = "[''cpinutil.py'', ''-p'', ''a.top'', ''-igb'', ''5'']"
  let ?s1 = "[(3 :: int, ''AS4''), (4, ''LYS'')]"
  let ?e2 = "demo_env [''ALA'', ''GLU'', ''AS4'', ''TYR'']"
  let ?a2 = "[''cpinutil.py'', ''-p'', ''a.top'', ''-igb'', ''5'', ''-states'', ''0,-1'']"
  let ?s2 = "[(3 :: int, ''AS4''), (4, ''TYR'')]"
  let ?st2 = "demo_opts\<lparr>residue_states := [''0'', ''-1'']\<rparr>"
  let ?ds = "[[[''0'', ''0'', ''-0.4'', ''0.1''], [''26.8'', ''1'', ''-0.2'', ''0.3'']],
              [[''0'', ''1'', ''0.5''], [''-65.1'', ''0'', ''0.7'']]]"
  have a1: "record_started ?e1 ?a1 demo_opts (demo_params []) ?s1 [0, 0]" by code_simp
  have b1: "getData ?e1 ''LYS'' 5 = None" by code_simp
  have n1: "dedup_names ?s1 = [''AS4'', ''LYS'']" by code_simp
  have g1: "igb_n (demo_params []) = 5" by (simp add: demo_params_def)
  from b1 n1 g1 have c1: "\<exists>nm\<in>set (dedup_names ?s1). getData ?e1 nm (igb_n (demo_params [])) = None"
    by simp
  have a2: "record_started ?e2 ?a2 ?st2 (demo_params [0, - 1]) ?s2 [0, - 1]" by code_simp
  have m2: "map (\<lambda>nm. getData ?e2 nm (igb_n (demo_params [0, - 1]))) (dedup_names ?s2)
              = map Some ?ds" by code_simp
  have n2: "dedup_names ?s2 = [''AS4'', ''TYR'']" by code_simp
  have w2: "warnings ?st2 = []" by code_simp
  have r2: "\<forall>d\<in>set ?ds. \<forall>row\<in>set d. 2 \<le> length row" by simp
  have i2: "(1::nat) < length ?s2 \<and> (1::nat) < length ?ds \<and> snd (?s2 !  1) = dedup_names ?s2 ! 1 \<and>
            ([0, - 1 :: int] ! 1 < 0 \<or> int (length (?ds ! 1)) \<le> [0, - 1] ! 1)"
    unfolding n2 by simp
  from lookup_and_range_failures_abort[OF a1] c1
  have x1: "status (run ?e1 ?a1) = SysExit"
           "\<exists>ls. out (run ?e1 ?a1) = ''&CNSTPH'' # ls \<and> ''/'' \<notin> set ls"
    by blast+
  from lookup_and_range_failures_abort[OF a2] m2 r2 i2
  have "status (run ?e2 ?a2) = SysExit \<and> err (run ?e2 ?a2) = warnings ?st2 @ [msg_range]"
    by blast
  with w2 have x2: "status (run ?e2 ?a2) = SysExit" "err (run ?e2 ?a2) = [msg_range]" by simp_all
  from a1 b1 x1 a2 x2 show ?thesis by blast
qed

text \<open>
  Two runs that end after output was printed. A residue named LYS has no entry in the table:
  the header is on standard output when the run ends. The second of two initial states is 2
  where the residue has two states: the header and three complete fields are on standard
  output when the run ends.
\<close>

theorem lookup_failure_after_header:
  "status (run (demo_env [''ALA'', ''GLU'', ''AS4'', ''LYS''])
               [''cpinutil.py'', ''-p'', ''a.top'', ''-igb'', ''5'']) = SysExit \<and>
   err (run (demo_env [''ALA'', ''GLU'', ''AS4'', ''LYS''])
            [''cpinutil.py'', ''-p'', ''a.top'', ''-igb'', ''5'']) = [msg_lookup] \<and>
   out (run (demo_env [''ALA'', ''GLU'', ''AS4'', ''LYS''])
            [''cpinutil.py'', ''-p'', ''a.top'', ''-igb'', ''5'']) = [''&CNSTPH''] \<and>
   status (run (demo_env [''ALA'', ''GLU'', ''AS4'', ''TYR''])
               [''cpinutil.py'', ''-p'', ''a.top'', ''-igb'', ''5'', ''-states'', ''0,2'']) = SysExit \<and>
   err (run (demo_env [''ALA'', ''GLU'', ''AS4'', ''TYR''])
            [''cpinutil.py'', ''-p'', ''a.top'', ''-igb'', ''5'', ''-states'', ''0,2'']) = [msg_range] \<and>
   out (run (demo_env [''ALA'', ''GLU'', ''AS4'', ''TYR''])
            [''cpinutil.py'', ''-p'', ''a.top'', ''-igb'', ''5'', ''-states'', ''0,2''])
     = [''&CNSTPH'', '' CHRGDAT=-0.4,0.1,-0.2,0.3,0.5,0.7,'', '' PROTCNT=0,1,1,0,'',
        resname_prefix @ [quote] @ ''Residue: AS4 3'' @ [quote] @ '','' @
                         [quote] @ ''Residue: TYR 4'' @ [quote] @ '','']"
  by code_simp

section \<open>Offsets into the flattened arrays\<close>

text \<open>
  Claim C6. Let the run reach line 286 with the selection \<open>s\<close> and complete. Then the
  reference table has an entry for every deduplicated name (\<open>ds\<close>, in the order of the
  names), and standard output contains the lines of the STATEINF group: the lines the line
  buffer makes of a token list \<open>ts\<close>, five tokens per selected residue, whose text with the
  leading space of each line removed is the tokens one after the other. For the residue at
  position \<open>i\<close> of the selection whose name is entry \<open>k\<close> of the deduplicated names, token
  \<open>5i+1\<close> is \<^verbatim>\<open>STATEINF(i)%FIRST_CHARGE=\<close> followed by the sum, over the entries \<open>j < k\<close>, of
  the number of atoms of entry \<open>j\<close> (the length of a row less two) times its number of
  states (the number of rows); token \<open>5i+2\<close> is \<^verbatim>\<open>STATEINF(i)%FIRST_STATE=\<close> followed by
  the sum of the numbers of states of the entries \<open>j < k\<close>. Both depend on \<open>k\<close> alone:
  residues of one name get the same offsets.
\<close>

theorem first_charge_and_first_state_text:
  assumes "record_started e argv st p s sts" and "status (run e argv) = Completed"
  shows "\<exists>ds ts before after.
     map (\<lambda>nm. getData e nm (igb_n p)) (dedup_names s) = map Some ds \<and>
     out (run e argv) = before @ fst (emit_field '' '' (map Inr ts)) @ after \<and>
     concat (map tl (fst (emit_field '' '' (map Inr ts)))) = concat ts \<and>
     length ts = 5 * length s \<and>
     (\<forall>i k. i < length s \<and> k < length (dedup_names s) \<and> snd (s ! i) = dedup_names s ! k \<longrightarrow>
        ts ! (5 * i + 1) =
          ''STATEINF('' @ str_int (int i) @ '')%FIRST_CHARGE='' @
          str_int (\<Sum>j<k. (int (length (hd (ds ! j))) - 2) * int (length (ds ! j))) @ '', '' \<and>
        ts ! (5 * i + 2) =
          ''STATEINF('' @ str_int (int i) @ '')%FIRST_STATE='' @
          str_int (\<Sum>j<k. int (length (ds ! j))) @ '', '')"
proof -
  let ?names = "dedup_names s"
  let ?ptrs = "residue_pointers e (prmtop st)"
  let ?rd = "map (\<lambda>nm. getData e nm (igb_n p)) ?names"
  note r = run_started[OF assms(1)]
  from assms(2) r have "status (emit ?ptrs ?names ?rd s sts (warnings st)) = Completed" by simp
  from emit_completed_layout[OF this] obtain ds where
    l: "?rd = map Some ds"
       "out (emit ?ptrs ?names ?rd s sts (warnings st)) =
         ''&CNSTPH'' #
         (fst (emit_field '' CHRGDAT='' (chrgdat_tokens ?rd)) @
          fst (emit_field '' PROTCNT='' (column_tokens 1 ds)) @
          fst (emit_field resname_prefix (resname_tokens s)) @
          fst (emit_field '' RESSTATE='' (resstate_tokens (zip ?names ds) s sts)) @
          fst (emit_field '' '' (stateinf_tokens ?ptrs (zip ?names ds) 0 None s)) @
          fst (emit_field '' STATENE='' (column_tokens 0 ds))) @
         [trescnt_line s, ''/'']"
       "\<forall>t\<in>set (stateinf_tokens ?ptrs (zip ?names ds) 0 None s). \<not> isl t"
    by blast
  let ?T = "stateinf_tokens ?ptrs (zip ?names ds) 0 None s"
  define ts where "ts = map projr ?T"
  from all_inr_map[OF l(3)] have T: "?T = map Inr ts" by (simp add: ts_def)
  from l(1) have len: "length ds = length ?names" by (metis length_map)
  have mem: "\<forall>q\<in>set s. snd q \<in> set ?names" by (simp add: set_dedup_names)
  note st = stateinf_tokens_text[OF distinct_dedup_names len mem l(3)]
  from st T have lts: "length ts = 5 * length s" by (metis length_map)
  have nth: "ts ! (5 * i + 1) =
          ''STATEINF('' @ str_int (int i) @ '')%FIRST_CHARGE='' @
          str_int (\<Sum>j<k. (int (length (hd (ds ! j))) - 2) * int (length (ds ! j))) @ '', '' \<and>
        ts ! (5 * i + 2) =
          ''STATEINF('' @ str_int (int i) @ '')%FIRST_STATE='' @
          str_int (\<Sum>j<k. int (length (ds ! j))) @ '', ''"
    if a: "i < length s" "k < length ?names" "snd (s ! i) = ?names ! k" for i k
  proof -
    from a(1) lts have b: "5 * i + 1 < length ts" "5 * i + 2 < length ts" by simp_all
    from st a have
      "?T ! (5 * i + 1) =
          Inr (''STATEINF('' @ str_int (int (0 + i)) @ '')%FIRST_CHARGE='' @
          str_int (\<Sum>j<k. (int (length (hd (ds ! j))) - 2) * int (length (ds ! j))) @ '', '')"
      "?T ! (5 * i + 2) =
          Inr (''STATEINF('' @ str_int (int (0 + i)) @ '')%FIRST_STATE='' @
          str_int (\<Sum>j<k. int (length (ds ! j))) @ '', '')"
      by blast+
    then show ?thesis unfolding T using b by simp
  qed
  have ftext: "concat (map tl (fst (emit_field '' '' (map Inr ts)))) = concat ts"
    using emit_field_text[of "[]" ts] by simp
  let ?before = "''&CNSTPH'' #
         (fst (emit_field '' CHRGDAT='' (chrgdat_tokens ?rd)) @
          fst (emit_field '' PROTCNT='' (column_tokens 1 ds)) @
          fst (emit_field resname_prefix (resname_tokens s)) @
          fst (emit_field '' RESSTATE='' (resstate_tokens (zip ?names ds) s sts)))"
  let ?after = "fst (emit_field '' STATENE='' (column_tokens 0 ds)) @ [trescnt_line s, ''/'']"
  from l(2) r T have o: "out (run e argv) = ?before @ fst (emit_field '' '' (map Inr ts)) @ ?after"
    by simp
  from l(1) o ftext lts nth show ?thesis by blast
qed

theorem first_charge_and_first_state_text_witness:
  "record_started (demo_env [''ALA'', ''GLU'', ''AS4'', ''TYR''])
      [''cpinutil.py'', ''-p'', ''a.top'', ''-igb'', ''5''] demo_opts (demo_params [])
      [(3, ''AS4''), (4, ''TYR'')] [0, 0] \<and>
   status (run (demo_env [''ALA'', ''GLU'', ''AS4'', ''TYR''])
              [''cpinutil.py'', ''-p'', ''a.top'', ''-igb'', ''5'']) = Completed \<and>
   out (run (demo_env [''ALA'', ''GLU'', ''AS4'', ''TYR''])
            [''cpinutil.py'', ''-p'', ''a.top'', ''-igb'', ''5'']) ! 7
     = '' STATEINF(1)%FIRST_ATOM=38, STATEINF(1)%FIRST_CHARGE=4, '' \<and>
   (\<exists>ds ts before after.
     map (\<lambda>nm. getData (demo_env [''ALA'', ''GLU'', ''AS4'', ''TYR'']) nm (igb_n (demo_params [])))
         (dedup_names [(3, ''AS4''), (4, ''TYR'')]) = map Some ds \<and>
     out (run (demo_env [''ALA'', ''GLU'', ''AS4'', ''TYR''])
              [''cpinutil.py'', ''-p'', ''a.top'', ''-igb'', ''5''])
       = before @ fst (emit_field '' '' (map Inr ts)) @ after \<and>
     length ts = 5 * length [(3 :: int, ''AS4''), (4, ''TYR'')] \<and>
     ts ! (5 * 1 + 1) =
          ''STATEINF('' @ str_int (int 1) @ '')%FIRST_CHARGE='' @
          str_int (\<Sum>j<1. (int (length (hd (ds ! j))) - 2) * int (length (ds ! j))) @ '', '')"
proof -
  let ?e = "demo_env [''ALA'', ''GLU'', ''AS4'', ''TYR'']"
  let ?argv = "[''cpinutil.py'', ''-p'', ''a.top'', ''-igb'', ''5'']"
  let ?s = "[(3 :: int, ''AS4''), (4, ''TYR'')]"
  have a: "record_started ?e ?argv demo_opts (demo_params []) ?s [0, 0]"
    by code_simp
  have b: "status (run ?e ?argv) = Completed" by code_simp
  have c: "out (run ?e ?argv) ! 7
     = '' STATEINF(1)%FIRST_ATOM=38, STATEINF(1)%FIRST_CHARGE=4, ''" by code_simp
  have n: "dedup_names ?s = [''AS4'', ''TYR'']" by code_simp
  from first_charge_and_first_state_text[OF a b] obtain ds ts before after where
    h: "map (\<lambda>nm. getData ?e nm (igb_n (demo_params []))) (dedup_names ?s) = map Some ds"
       "out (run ?e ?argv) = before @ fst (emit_field '' '' (map Inr ts)) @ after"
       "length ts = 5 * length ?s"
       "\<forall>i k. i < length ?s \<and> k < length (dedup_names ?s) \<and> snd (?s ! i) = dedup_names ?s ! k \<longrightarrow>
        ts ! (5 * i + 1) =
          ''STATEINF('' @ str_int (int i) @ '')%FIRST_CHARGE='' @
          str_int (\<Sum>j<k. (int (length (hd (ds ! j))) - 2) * int (length (ds ! j))) @ '', '' \<and>
        ts ! (5 * i + 2) =
          ''STATEINF('' @ str_int (int i) @ '')%FIRST_STATE='' @
          str_int (\<Sum>j<k. int (length (ds ! j))) @ '', ''"
    by blast
  have "(1::nat) < length ?s \<and> (1::nat) < length (dedup_names ?s) \<and>
        snd (?s ! 1) = dedup_names ?s ! 1" unfolding n by simp
  with h(4) have "ts ! (5 * 1 + 1) =
          ''STATEINF('' @ str_int (int 1) @ '')%FIRST_CHARGE='' @
          str_int (\<Sum>j<1. (int (length (hd (ds ! j))) - 2) * int (length (ds ! j))) @ '', ''"
    by blast
  with a b c h(1,2,3) show ?thesis by blast
qed

section \<open>The exit status of a failure\<close>

lemma arg_step_resname:
  "arg_step ''-resname'' rest st =
     (if nresname_spec st then Inl ([msg_resname], SysExit)
      else Inr (st\<lparr>resname_spec := True,
                    titrate_residues := concat (map (\<lambda>d. d @ '' '') (flag_values rest))\<rparr>))"
  by (simp add: arg_step_def)

lemma arg_step_notresname:
  "arg_step ''-notresname'' rest st =
     (if resname_spec st then Inl ([msg_resname], SysExit)
      else Inr (st\<lparr>nresname_spec := True,
                    titrate_residues := foldl replace_del (titrate_residues st) (flag_values rest)\<rparr>))"
  by (simp add: arg_step_def)

lemma arg_step_resnum:
  "arg_step ''-resnum'' rest st =
     (if nresnum_spec st then Inl ([msg_resnum], SysExit)
      else Inr (st\<lparr>resnum_spec := True, resnums := resnums st @ flag_values rest\<rparr>))"
  by (simp add: arg_step_def)

lemma arg_step_notresnum:
  "arg_step ''-notresnum'' rest st =
     (if resnum_spec st then Inl ([msg_resnum], SysExit)
      else Inr (st\<lparr>nresnum_spec := True, notresnums := notresnums st @ flag_values rest\<rparr>))"
  by (simp add: arg_step_def)

lemma arg_step_keeps_name_specs:
  assumes "a \<noteq> ''-resname''" "a \<noteq> ''-notresname''" "rest \<noteq> []"
  shows "(\<exists>msgs. arg_step a rest st = Inl (msgs, SysExit)) \<or>
         (\<exists>st'. arg_step a rest st = Inr st' \<and> resname_spec st' = resname_spec st \<and>
                 nresname_spec st' = nresname_spec st)"
proof -
  from assms(3) obtain v vs where r: "rest = v # vs" by (cases rest) auto
  show ?thesis unfolding r using assms(1,2) by (simp add: arg_step_def)
qed

lemma arg_step_keeps_num_specs:
  assumes "a \<noteq> ''-resnum''" "a \<noteq> ''-notresnum''" "rest \<noteq> []"
  shows "(\<exists>msgs. arg_step a rest st = Inl (msgs, SysExit)) \<or>
         (\<exists>st'. arg_step a rest st = Inr st' \<and> resnum_spec st' = resnum_spec st \<and>
                 nresnum_spec st' = nresnum_spec st)"
proof -
  from assms(3) obtain v vs where r: "rest = v # vs" by (cases rest) auto
  show ?thesis unfolding r using assms(1,2) by (simp add: arg_step_def)
qed

lemma parse_conflict_names:
  assumes "(''-resname'' \<in> set as \<and> (nresname_spec st \<or> ''-notresname'' \<in> set as)) \<or>
           (''-notresname'' \<in> set as \<and> (resname_spec st \<or> ''-resname'' \<in> set as))"
  shows "\<exists>msgs. parse_loop as st = Inl (msgs, SysExit)"
  using assms
proof (induction as arbitrary: st)
  case Nil
  then show ?case by simp
next
  case (Cons a rest)
  have ne: "''-resname'' \<noteq> ''-notresname''" by simp
  consider (r) "a = ''-resname''" | (n) "a = ''-notresname''"
    | (o) "a \<noteq> ''-resname''" "a \<noteq> ''-notresname''" by blast
  then show ?case
  proof cases
    case r
    show ?thesis
    proof (cases "nresname_spec st")
      case True
      then show ?thesis by (simp add: r arg_step_resname)
    next
      case False
      let ?st = "st\<lparr>resname_spec := True,
                    titrate_residues := concat (map (\<lambda>d. d @ '' '') (flag_values rest))\<rparr>"
      from Cons.prems False r ne have "''-notresname'' \<in> set rest" by auto
      then have "(''-resname'' \<in> set rest \<and> (nresname_spec ?st \<or> ''-notresname'' \<in> set rest)) \<or>
           (''-notresname'' \<in> set rest \<and> (resname_spec ?st \<or> ''-resname'' \<in> set rest))"
        by simp
      from Cons.IH[OF this] False show ?thesis by (simp add: r arg_step_resname)
    qed
  next
    case n
    show ?thesis
    proof (cases "resname_spec st")
      case True
      then show ?thesis by (simp add: n arg_step_notresname)
    next
      case False
      let ?st = "st\<lparr>nresname_spec := True,
                    titrate_residues := foldl replace_del (titrate_residues st) (flag_values rest)\<rparr>"
      from Cons.prems False n ne have "''-resname'' \<in> set rest" by auto
      then have "(''-resname'' \<in> set rest \<and> (nresname_spec ?st \<or> ''-notresname'' \<in> set rest)) \<or>
           (''-notresname'' \<in> set rest \<and> (resname_spec ?st \<or> ''-resname'' \<in> set rest))"
        by simp
      from Cons.IH[OF this] False show ?thesis by (simp add: n arg_step_notresname)
    qed
  next
    case o
    from Cons.prems o have m: "(''-resname'' \<in> set rest \<and> (nresname_spec st \<or> ''-notresname'' \<in> set rest)) \<or>
           (''-notresname'' \<in> set rest \<and> (resname_spec st \<or> ''-resname'' \<in> set rest))"
      by auto
    then have "rest \<noteq> []" by auto
    from arg_step_keeps_name_specs[OF o this, of st] show ?thesis
    proof
      assume "\<exists>msgs. arg_step a rest st = Inl (msgs, SysExit)"
      then show ?thesis by auto
    next
      assume "\<exists>st'. arg_step a rest st = Inr st' \<and> resname_spec st' = resname_spec st \<and>
                 nresname_spec st' = nresname_spec st"
      then obtain st' where s: "arg_step a rest st = Inr st'" "resname_spec st' = resname_spec st"
        "nresname_spec st' = nresname_spec st" by blast
      from m s(2,3) have "(''-resname'' \<in> set rest \<and> (nresname_spec st' \<or> ''-notresname'' \<in> set rest)) \<or>
           (''-notresname'' \<in> set rest \<and> (resname_spec st' \<or> ''-resname'' \<in> set rest))"
        by simp
      from Cons.IH[OF this] s(1) show ?thesis by simp
    qed
  qed
qed

lemma parse_conflict_numbers:
  assumes "(''-resnum'' \<in> set as \<and> (nresnum_spec st \<or> ''-notresnum'' \<in> set as)) \<or>
           (''-notresnum'' \<in> set as \<and> (resnum_spec st \<or> ''-resnum'' \<in> set as))"
  shows "\<exists>msgs. parse_loop as st = Inl (msgs, SysExit)"
  using assms
proof (induction as arbitrary: st)
  case Nil
  then show ?case by simp
next
  case (Cons a rest)
  have ne: "''-resnum'' \<noteq> ''-notresnum''" by simp
  consider (r) "a = ''-resnum''" | (n) "a = ''-notresnum''"
    | (o) "a \<noteq> ''-resnum''" "a \<noteq> ''-notresnum''" by blast
  then show ?case
  proof cases
    case r
    show ?thesis
    proof (cases "nresnum_spec st")
      case True
      then show ?thesis by (simp add: r arg_step_resnum)
    next
      case False
      let ?st = "st\<lparr>resnum_spec := True, resnums := resnums st @ flag_values rest\<rparr>"
      from Cons.prems False r ne have "''-notresnum'' \<in> set rest" by auto
      then have "(''-resnum'' \<in> set rest \<and> (nresnum_spec ?st \<or> ''-notresnum'' \<in> set rest)) \<or>
           (''-notresnum'' \<in> set rest \<and> (resnum_spec ?st \<or> ''-resnum'' \<in> set rest))"
        by simp
      from Cons.IH[OF this] False show ?thesis by (simp add: r arg_step_resnum)
    qed
  next
    case n
    show ?thesis
    proof (cases "resnum_spec st")
      case True
      then show ?thesis by (simp add: n arg_step_notresnum)
    next
      case False
      let ?st = "st\<lparr>nresnum_spec := True, notresnums := notresnums st @ flag_values rest\<rparr>"
      from Cons.prems False n ne have "''-resnum'' \<in> set rest" by auto
      then have "(''-resnum'' \<in> set rest \<and> (nresnum_spec ?st \<or> ''-notresnum'' \<in> set rest)) \<or>
           (''-notresnum'' \<in> set rest \<and> (resnum_spec ?st \<or> ''-resnum'' \<in> set rest))"
        by simp
      from Cons.IH[OF this] False show ?thesis by (simp add: n arg_step_notresnum)
    qed
  next
    case o
    from Cons.prems o have m: "(''-resnum'' \<in> set rest \<and> (nresnum_spec st \<or> ''-notresnum'' \<in> set rest)) \<or>
           (''-notresnum'' \<in> set rest \<and> (resnum_spec st \<or> ''-resnum'' \<in> set rest))"
      by auto
    then have "rest \<noteq> []" by auto
    from arg_step_keeps_num_specs[OF o this, of st] show ?thesis
    proof
      assume "\<exists>msgs. arg_step a rest st = Inl (msgs, SysExit)"
      then show ?thesis by auto
    next
      assume "\<exists>st'. arg_step a rest st = Inr st' \<and> resnum_spec st' = resnum_spec st \<and>
                 nresnum_spec st' = nresnum_spec st"
      then obtain st' where s: "arg_step a rest st = Inr st'" "resnum_spec st' = resnum_spec st"
        "nresnum_spec st' = nresnum_spec st" by blast
      from m s(2,3) have "(''-resnum'' \<in> set rest \<and> (nresnum_spec st' \<or> ''-notresnum'' \<in> set rest)) \<or>
           (''-notresnum'' \<in> set rest \<and> (resnum_spec st' \<or> ''-resnum'' \<in> set rest))"
        by simp
      from Cons.IH[OF this] s(1) show ?thesis by simp
    qed
  qed
qed

lemma run_parse_fail:
  "\<not> asks_help argv \<Longrightarrow> parse_loop (drop 1 argv) init_opts = Inl (msgs, oc) \<Longrightarrow>
   run e argv = halt msgs oc"
  by (auto simp: run_def asks_help_def parse_args_def)

lemma exits_zero_halt: "exits_zero (halt msgs SysExit)"
  by (simp add: exits_zero_def halt_def)

lemma select_listed_rejects:
  assumes "\<forall>n\<in>set rns. 1 \<le> n"
      and "\<exists>n\<in>set rns. int (length labels) < n \<or> \<not> py_in (labels ! nat (n - 1)) tr"
  shows "\<exists>msgs. select_listed path labels tr rns = Inl (msgs, SysExit)"
  using assms
proof (induction rns)
  case Nil
  then show ?case by simp
next
  case (Cons n rns)
  show ?case
  proof (cases "int (length labels) < n")
    case True
    then show ?thesis by simp
  next
    case False
    with Cons.prems(1) have g: "py_get labels (n - 1) = Inr (labels ! nat (n - 1))"
      by (simp add: py_get_def)
    show ?thesis
    proof (cases "py_in (labels ! nat (n - 1)) tr")
      case no: False
      with False g show ?thesis by simp
    next
      case True
      with False Cons.prems have "\<forall>n\<in>set rns. 1 \<le> n"
        "\<exists>n\<in>set rns. int (length labels) < n \<or> \<not> py_in (labels ! nat (n - 1)) tr"
        by auto
      from Cons.IH[OF this] obtain msgs where
        "select_listed path labels tr rns = Inl (msgs, SysExit)" by blast
      with False g True show ?thesis by simp
    qed
  qed
qed

text \<open>
  Claim C9, as the code has it. Each of these failures ends the run by \<^verbatim>\<open>sys.exit()\<close>
  called without an argument, and the exit status of the process is 0:
  both \<^verbatim>\<open>-resname\<close> and \<^verbatim>\<open>-notresname\<close> on the command line, or both \<^verbatim>\<open>-resnum\<close> and
  \<^verbatim>\<open>-notresnum\<close>; a topology file that does not exist; a radius set other than mbondi2 when
  warnings are not ignored; a topology without residue names or pointers; an include list of
  positive numbers one of which is larger than the number of residues or names a residue
  whose name does not occur in the active names; a scan that selects nothing; a list of
  initial states whose length is not the number of selected residues; a selected name
  without an entry in the reference table; an initial state out of range. Each is stated
  for a run that has come as far as the test in question. A run that completes ends its
  error stream with the line \<^verbatim>\<open>CPin created!\<close>.
\<close>

theorem validation_failures_exit_zero:
  "(status (run e argv) = Completed \<longrightarrow>
      err (run e argv) \<noteq> [] \<and> last (err (run e argv)) = ''CPin created!'') \<and>
   (\<not> asks_help argv \<and> ''-resname'' \<in> set (drop 1 argv) \<and> ''-notresname'' \<in> set (drop 1 argv)
      \<longrightarrow> exits_zero (run e argv)) \<and>
   (\<not> asks_help argv \<and> ''-resnum'' \<in> set (drop 1 argv) \<and> ''-notresnum'' \<in> set (drop 1 argv)
      \<longrightarrow> exits_zero (run e argv)) \<and>
   (parsed argv st \<and> fileexists e (prmtop st) = - 1 \<longrightarrow> exits_zero (run e argv)) \<and>
   (parsed argv st \<and> fileexists e (prmtop st) \<noteq> - 1 \<and> \<not> ignore_warn st \<and>
    getbondiset e (prmtop st) \<noteq> mbondi2 \<longrightarrow> exits_zero (run e argv)) \<and>
   (parsed argv st \<and> fileexists e (prmtop st) \<noteq> - 1 \<and>
    (ignore_warn st \<or> getbondiset e (prmtop st) = mbondi2) \<and>
    (residue_labels e (prmtop st) = [] \<or> residue_pointers e (prmtop st) = [])
      \<longrightarrow> exits_zero (run e argv)) \<and>
   (converted e argv st p \<and> (\<forall>n\<in>set (resnums_n p). 1 \<le> n) \<and>
    (\<exists>n\<in>set (resnums_n p). int (length (residue_labels e (prmtop st))) < n \<or>
        \<not> py_in (residue_labels e (prmtop st) ! nat (n - 1)) (titrate_residues st))
      \<longrightarrow> exits_zero (run e argv)) \<and>
   (converted e argv st p \<and> resnums_n p = [] \<and>
    scan_from 1 (residue_labels e (prmtop st)) (titrate_residues st) = []
      \<longrightarrow> exits_zero (run e argv)) \<and>
   (selected e argv st p s \<and> states_n p \<noteq> [] \<and> length (states_n p) \<noteq> length s
      \<longrightarrow> exits_zero (run e argv)) \<and>
   (record_started e argv st p s sts \<and>
    (\<exists>nm\<in>set (dedup_names s). getData e nm (igb_n p) = None)
      \<longrightarrow> exits_zero (run e argv)) \<and>
   (record_started e argv st p s sts \<and>
    map (\<lambda>nm. getData e nm (igb_n p)) (dedup_names s) = map Some ds \<and>
    (\<forall>d\<in>set ds. \<forall>row\<in>set d. 2 \<le> length row) \<and>
    i < length s \<and> k < length ds \<and> snd (s ! i) = dedup_names s ! k \<and>
    (sts ! i < 0 \<or> int (length (ds ! k)) \<le> sts ! i)
      \<longrightarrow> exits_zero (run e argv))"
proof -
  let ?labels = "residue_labels e (prmtop st)"
  have c0: "status (run e argv) = Completed \<longrightarrow>
      err (run e argv) \<noteq> [] \<and> last (err (run e argv)) = ''CPin created!''"
  proof
    assume a: "status (run e argv) = Completed"
    from run_completed_emit[OF a] obtain ptrs names rd s sts w where
      r: "run e argv = emit ptrs names rd s sts w" by blast
    from a r have "status (emit ptrs names rd s sts w) = Completed" by simp
    from emit_completed_layout[OF this] r
    have "err (run e argv) = w @ [''CPin created!'']" by auto
    then show "err (run e argv) \<noteq> [] \<and> last (err (run e argv)) = ''CPin created!''" by simp
  qed
  have c1: "\<not> asks_help argv \<and> ''-resname'' \<in> set (drop 1 argv) \<and>
            ''-notresname'' \<in> set (drop 1 argv) \<longrightarrow> exits_zero (run e argv)"
  proof
    assume a: "\<not> asks_help argv \<and> ''-resname'' \<in> set (drop 1 argv) \<and>
            ''-notresname'' \<in> set (drop 1 argv)"
    then have "(''-resname'' \<in> set (drop 1 argv) \<and>
                  (nresname_spec init_opts \<or> ''-notresname'' \<in> set (drop 1 argv))) \<or>
               (''-notresname'' \<in> set (drop 1 argv) \<and>
                  (resname_spec init_opts \<or> ''-resname'' \<in> set (drop 1 argv)))" by blast
    from parse_conflict_names[OF this] obtain msgs where
      "parse_loop (drop 1 argv) init_opts = Inl (msgs, SysExit)" by blast
    from run_parse_fail[OF _ this] a show "exits_zero (run e argv)"
      by (simp add: exits_zero_halt)
  qed
  have c2: "\<not> asks_help argv \<and> ''-resnum'' \<in> set (drop 1 argv) \<and>
            ''-notresnum'' \<in> set (drop 1 argv) \<longrightarrow> exits_zero (run e argv)"
  proof
    assume a: "\<not> asks_help argv \<and> ''-resnum'' \<in> set (drop 1 argv) \<and>
            ''-notresnum'' \<in> set (drop 1 argv)"
    then have "(''-resnum'' \<in> set (drop 1 argv) \<and>
                  (nresnum_spec init_opts \<or> ''-notresnum'' \<in> set (drop 1 argv))) \<or>
               (''-notresnum'' \<in> set (drop 1 argv) \<and>
                  (resnum_spec init_opts \<or> ''-resnum'' \<in> set (drop 1 argv)))" by blast
    from parse_conflict_numbers[OF this] obtain msgs where
      "parse_loop (drop 1 argv) init_opts = Inl (msgs, SysExit)" by blast
    from run_parse_fail[OF _ this] a show "exits_zero (run e argv)"
      by (simp add: exits_zero_halt)
  qed
  have c3: "parsed argv st \<and> fileexists e (prmtop st) = - 1 \<longrightarrow> exits_zero (run e argv)"
    using run_file_missing[of argv st e] by (auto simp: exits_zero_halt)
  have c4: "parsed argv st \<and> fileexists e (prmtop st) \<noteq> - 1 \<and> \<not> ignore_warn st \<and>
    getbondiset e (prmtop st) \<noteq> mbondi2 \<longrightarrow> exits_zero (run e argv)"
    using run_radius[of argv st e] by (auto simp: exits_zero_halt)
  have c5: "parsed argv st \<and> fileexists e (prmtop st) \<noteq> - 1 \<and>
    (ignore_warn st \<or> getbondiset e (prmtop st) = mbondi2) \<and>
    (residue_labels e (prmtop st) = [] \<or> residue_pointers e (prmtop st) = [])
      \<longrightarrow> exits_zero (run e argv)"
    using run_no_records[of argv st e] by (auto simp: exits_zero_halt)
  have c6: "converted e argv st p \<and> (\<forall>n\<in>set (resnums_n p). 1 \<le> n) \<and>
    (\<exists>n\<in>set (resnums_n p). int (length ?labels) < n \<or>
        \<not> py_in (?labels ! nat (n - 1)) (titrate_residues st))
      \<longrightarrow> exits_zero (run e argv)"
  proof
    assume a: "converted e argv st p \<and> (\<forall>n\<in>set (resnums_n p). 1 \<le> n) \<and>
      (\<exists>n\<in>set (resnums_n p). int (length ?labels) < n \<or>
        \<not> py_in (?labels ! nat (n - 1)) (titrate_residues st))"
    then have ne: "resnums_n p \<noteq> []" by auto
    from a select_listed_rejects[of "resnums_n p" ?labels "titrate_residues st" "prmtop st"]
    obtain msgs where
      "select_listed (prmtop st) ?labels (titrate_residues st) (resnums_n p) = Inl (msgs, SysExit)"
      by blast
    with ne have f: "select_residues (prmtop st) ?labels (titrate_residues st) (resnums_n p)
                     (notresnums_n p) = Inl (msgs, SysExit)"
      by (simp add: select_residues_def)
    from a have cv: "converted e argv st p" by blast
    from run_select_fail[OF cv f] show "exits_zero (run e argv)"
      by (simp add: exits_zero_halt)
  qed
  have c7: "converted e argv st p \<and> resnums_n p = [] \<and>
    scan_from 1 ?labels (titrate_residues st) = [] \<longrightarrow> exits_zero (run e argv)"
  proof
    assume a: "converted e argv st p \<and> resnums_n p = [] \<and>
      scan_from 1 ?labels (titrate_residues st) = []"
    then have f: "select_residues (prmtop st) ?labels (titrate_residues st) (resnums_n p)
                     (notresnums_n p) = Inl ([msg_none], SysExit)"
      by (simp add: select_residues_def)
    from a have cv: "converted e argv st p" by blast
    from run_select_fail[OF cv f] show "exits_zero (run e argv)"
      by (simp add: exits_zero_halt)
  qed
  have c8: "selected e argv st p s \<and> states_n p \<noteq> [] \<and> length (states_n p) \<noteq> length s
      \<longrightarrow> exits_zero (run e argv)"
  proof
    assume a: "selected e argv st p s \<and> states_n p \<noteq> [] \<and> length (states_n p) \<noteq> length s"
    then have f: "initial_states (states_n p) s =
                 Inl ([msg_states (length (states_n p)) (length s)], SysExit)"
      by (simp add: initial_states_def)
    from a have sl: "selected e argv st p s" by blast
    from run_states_fail[OF sl f] show "exits_zero (run e argv)"
      by (simp add: exits_zero_halt)
  qed
  have ez: "exits_zero \<lparr>out = l, err = m, status = SysExit\<rparr>" for l m
    by (simp add: exits_zero_def)
  have c9: "record_started e argv st p s sts \<and>
    (\<exists>nm\<in>set (dedup_names s). getData e nm (igb_n p) = None) \<longrightarrow> exits_zero (run e argv)"
  proof
    assume a: "record_started e argv st p s sts \<and>
      (\<exists>nm\<in>set (dedup_names s). getData e nm (igb_n p) = None)"
    then have "None \<in> set (map (\<lambda>nm. getData e nm (igb_n p)) (dedup_names s))" by force
    from emit_lookup[OF this, of "residue_pointers e (prmtop st)" "dedup_names s" s sts
                      "warnings st"]
    obtain l where
      "emit (residue_pointers e (prmtop st)) (dedup_names s)
          (map (\<lambda>nm. getData e nm (igb_n p)) (dedup_names s)) s sts (warnings st) =
         \<lparr>out = ''&CNSTPH'' # l, err = warnings st @ [msg_lookup], status = SysExit\<rparr>"
      by blast
    with run_started[of e argv st p s sts] a ez show "exits_zero (run e argv)" by simp
  qed
  have c10: "record_started e argv st p s sts \<and>
    map (\<lambda>nm. getData e nm (igb_n p)) (dedup_names s) = map Some ds \<and>
    (\<forall>d\<in>set ds. \<forall>row\<in>set d. 2 \<le> length row) \<and>
    i < length s \<and> k < length ds \<and> snd (s ! i) = dedup_names s ! k \<and>
    (sts ! i < 0 \<or> int (length (ds ! k)) \<le> sts ! i) \<longrightarrow> exits_zero (run e argv)"
  proof
    assume a: "record_started e argv st p s sts \<and>
      map (\<lambda>nm. getData e nm (igb_n p)) (dedup_names s) = map Some ds \<and>
      (\<forall>d\<in>set ds. \<forall>row\<in>set d. 2 \<le> length row) \<and>
      i < length s \<and> k < length ds \<and> snd (s ! i) = dedup_names s ! k \<and>
      (sts ! i < 0 \<or> int (length (ds ! k)) \<le> sts ! i)"
    then have "initial_states (states_n p) s = Inr sts" by (simp add: record_started_def)
    from initial_states_length[OF this] have ls: "length sts = length s" .
    from a have "length ds = length (dedup_names s)" by (metis length_map)
    with a have z: "(snd (s ! i), ds ! k) \<in> set (zip (dedup_names s) ds)"
      by (auto simp: in_set_zip)
    from a have b: "\<forall>d\<in>set ds. \<forall>row\<in>set d. 2 \<le> length row" "i < length s"
      "sts ! i < 0 \<or> int (length (ds ! k)) \<le> sts ! i" by blast+
    from emit_range[OF b(1) ls b(2) z b(3), of "residue_pointers e (prmtop st)" "warnings st"]
    obtain l where
      "emit (residue_pointers e (prmtop st)) (dedup_names s) (map Some ds) s sts (warnings st) =
         \<lparr>out = ''&CNSTPH'' # l, err = warnings st @ [msg_range], status = SysExit\<rparr>"
      by blast
    with run_started[of e argv st p s sts] a ez show "exits_zero (run e argv)" by simp
  qed
  from c0 c1 c2 c3 c4 c5 c6 c7 c8 c9 c10 show ?thesis by blast
qed

theorem validation_failures_exit_zero_witness:
  "\<not> asks_help [''cpinutil.py'', ''-p'', ''a.top'', ''-resname'', ''AS4'', ''-notresname'', ''TYR''] \<and>
   exits_zero (run (demo_env [''ALA'', ''GLU'', ''AS4'', ''TYR''])
      [''cpinutil.py'', ''-p'', ''a.top'', ''-resname'', ''AS4'', ''-notresname'', ''TYR'']) \<and>
   \<not> asks_help [''cpinutil.py'', ''-p'', ''a.top'', ''-notresnum'', ''1'', ''-resnum'', ''3''] \<and>
   exits_zero (run (demo_env [''ALA'', ''GLU'', ''AS4'', ''TYR''])
      [''cpinutil.py'', ''-p'', ''a.top'', ''-notresnum'', ''1'', ''-resnum'', ''3'']) \<and>
   selected (demo_env [''ALA'', ''GLU'', ''AS4'', ''TYR''])
      [''cpinutil.py'', ''-p'', ''a.top'', ''-igb'', ''5'', ''-states'', ''0'']
      (demo_opts\<lparr>residue_states := [''0'']\<rparr>) (demo_params [0]) [(3, ''AS4''), (4, ''TYR'')] \<and>
   exits_zero (run (demo_env [''ALA'', ''GLU'', ''AS4'', ''TYR''])
      [''cpinutil.py'', ''-p'', ''a.top'', ''-igb'', ''5'', ''-states'', ''0'']) \<and>
   status (run (demo_env [''ALA'', ''GLU'', ''AS4'', ''TYR''])
      [''cpinutil.py'', ''-p'', ''a.top'', ''-igb'', ''5'']) = Completed \<and>
   last (err (run (demo_env [''ALA'', ''GLU'', ''AS4'', ''TYR''])
      [''cpinutil.py'', ''-p'', ''a.top'', ''-igb'', ''5''])) = ''CPin created!''"
proof -
  let ?e = "demo_env [''ALA'', ''GLU'', ''AS4'', ''TYR'']"
  let ?a1 = "[''cpinutil.py'', ''-p'', ''a.top'', ''-resname'', ''AS4'', ''-notresname'', ''TYR'']"
  let ?a2 = "[''cpinutil.py'', ''-p'', ''a.top'', ''-notresnum'', ''1'', ''-resnum'', ''3'']"
  let ?a3 = "[''cpinutil.py'', ''-p'', ''a.top'', ''-igb'', ''5'', ''-states'', ''0'']"
  let ?a4 = "[''cpinutil.py'', ''-p'', ''a.top'', ''-igb'', ''5'']"
  let ?st3 = "demo_opts\<lparr>residue_states := [''0'']\<rparr>"
  let ?s = "[(3 :: int, ''AS4''), (4, ''TYR'')]"
  have h1: "\<not> asks_help ?a1" "''-resname'' \<in> set (drop 1 ?a1)" "''-notresname'' \<in> set (drop 1 ?a1)"
    by code_simp+
  have h2: "\<not> asks_help ?a2" "''-resnum'' \<in> set (drop 1 ?a2)" "''-notresnum'' \<in> set (drop 1 ?a2)"
    by code_simp+
  have h3: "selected ?e ?a3 ?st3 (demo_params [0]) ?s" by code_simp
  have g3: "states_n (demo_params [0]) \<noteq> [] \<and> length (states_n (demo_params [0])) \<noteq> length ?s"
    by (simp add: demo_params_def)
  have h4: "status (run ?e ?a4) = Completed" by code_simp
  from validation_failures_exit_zero[where e = ?e and argv = ?a1] h1
  have x1: "exits_zero (run ?e ?a1)" by blast
  from validation_failures_exit_zero[where e = ?e and argv = ?a2] h2
  have x2: "exits_zero (run ?e ?a2)" by blast
  from validation_failures_exit_zero[where e = ?e and argv = ?a3 and st = ?st3
         and p = "demo_params [0]" and s = ?s] h3 g3
  have x3: "exits_zero (run ?e ?a3)" by blast
  from validation_failures_exit_zero[where e = ?e and argv = ?a4] h4
  have x4: "last (err (run ?e ?a4)) = ''CPin created!''" by blast
  from h1(1) x1 h2(1) x2 h3 x3 h4 x4 show ?thesis by blast
qed

text \<open>
  Both \<^verbatim>\<open>-resname\<close> and \<^verbatim>\<open>-notresname\<close> on the command line: the message is written and
  the exit status is 0.
\<close>

theorem both_name_filters_exit_status_zero:
  "err (run (demo_env [''ALA'', ''GLU'', ''AS4'', ''TYR''])
            [''cpinutil.py'', ''-p'', ''a.top'', ''-resname'', ''AS4'', ''-notresname'', ''TYR''])
     = [msg_resname] \<and>
   exit_status (status (run (demo_env [''ALA'', ''GLU'', ''AS4'', ''TYR''])
            [''cpinutil.py'', ''-p'', ''a.top'', ''-resname'', ''AS4'', ''-notresname'', ''TYR'']))
     = Some 0"
  by code_simp

section \<open>The system label\<close>

text \<open>
  Claim C10, as the code has it. Two command lines that differ only in the value that
  follows \<^verbatim>\<open>-system\<close> give the same run (same output, same error stream, same end),
  provided neither value is itself one of the flags of the script: the loop over the command
  line looks at every argument as a flag, the value of \<^verbatim>\<open>-system\<close> included. What the
  script does after the command line is read is the same for every value of
  \<^verbatim>\<open>system_name\<close>. And when the run completes, its output holds a line that begins with
  \<^verbatim>\<open> RESNAME='System: Unknown',\<close>, the head of the RESNAME field, whatever the value was.
\<close>

theorem system_value_and_label:
  assumes "v1 \<notin> set option_flags" "v2 \<notin> set option_flags" "pre \<noteq> []"
  shows "run e (pre @ ''-system'' # v1 # post) = run e (pre @ ''-system'' # v2 # post) \<and>
         finish e (st\<lparr>system_name := v1\<rparr>) = finish e (st\<lparr>system_name := v2\<rparr>) \<and>
         (status (run e (pre @ ''-system'' # v1 # post)) = Completed \<longrightarrow>
            (\<exists>before rest more after.
               out (run e (pre @ ''-system'' # v1 # post)) =
                 before @
                 (('' RESNAME='' @ [quote] @ ''System: Unknown'' @ [quote] @ '','' @ rest) # more) @
                 after))"
proof -
  from assms(3) obtain p0 xs where pre: "pre = p0 # xs" by (cases pre) auto
  have s: "same_but_system init_opts init_opts" by (simp add: same_but_system_def)
  have one: "(pre @ ''-system'' # v1 # post) ! 1 = (pre @ ''-system'' # v2 # post) ! 1"
    unfolding pre by (cases xs) simp_all
  have len: "length (pre @ ''-system'' # v1 # post) = length (pre @ ''-system'' # v2 # post)"
    by simp
  from parse_loop_system[OF assms(1,2) s, of xs post]
  have "(case parse_args (pre @ ''-system'' # v1 # post) of
              Inl (msgs, oc) \<Rightarrow> halt msgs oc | Inr st \<Rightarrow> finish e st)
      = (case parse_args (pre @ ''-system'' # v2 # post) of
              Inl (msgs, oc) \<Rightarrow> halt msgs oc | Inr st \<Rightarrow> finish e st)"
    unfolding parse_args_def pre
    by (cases "parse_loop (xs @ ''-system'' # v1 # post) init_opts";
        cases "parse_loop (xs @ ''-system'' # v2 # post) init_opts")
       (auto dest: finish_same)
  then have "run e (pre @ ''-system'' # v1 # post) = run e (pre @ ''-system'' # v2 # post)"
    unfolding run_def one len by simp
  moreover have "finish e (st\<lparr>system_name := v1\<rparr>) = finish e (st\<lparr>system_name := v2\<rparr>)"
    by (simp add: finish_system)
  ultimately show ?thesis using run_completed_label[of e "pre @ ''-system'' # v1 # post"]
    by blast
qed

theorem system_value_and_label_witness:
  "''box'' \<notin> set option_flags \<and> ''Unknown'' \<notin> set option_flags \<and>
   run (demo_env [''ALA'', ''GLU'', ''AS4'', ''TYR''])
       ([''cpinutil.py'', ''-p'', ''a.top'', ''-igb'', ''5''] @ ''-system'' # ''box'' # [])
   = run (demo_env [''ALA'', ''GLU'', ''AS4'', ''TYR''])
       ([''cpinutil.py'', ''-p'', ''a.top'', ''-igb'', ''5''] @ ''-system'' # ''Unknown'' # []) \<and>
   status (run (demo_env [''ALA'', ''GLU'', ''AS4'', ''TYR''])
       ([''cpinutil.py'', ''-p'', ''a.top'', ''-igb'', ''5''] @ ''-system'' # ''box'' # []))
     = Completed \<and>
   (\<exists>before rest more after.
      out (run (demo_env [''ALA'', ''GLU'', ''AS4'', ''TYR''])
         ([''cpinutil.py'', ''-p'', ''a.top'', ''-igb'', ''5''] @ ''-system'' # ''box'' # [])) =
        before @
        (('' RESNAME='' @ [quote] @ ''System: Unknown'' @ [quote] @ '','' @ rest) # more) @ after)"
proof -
  have a: "''box'' \<notin> set option_flags" "''Unknown'' \<notin> set option_flags"
    by (simp_all add: option_flags_def)
  have b: "[''cpinutil.py'', ''-p'', ''a.top'', ''-igb'', ''5''] \<noteq> []" by simp
  have c: "status (run (demo_env [''ALA'', ''GLU'', ''AS4'', ''TYR''])
       ([''cpinutil.py'', ''-p'', ''a.top'', ''-igb'', ''5''] @ ''-system'' # ''box'' # []))
     = Completed" by code_simp
  from system_value_and_label[OF a b] a c show ?thesis by blast
qed

text \<open>
  With the value \<^verbatim>\<open>-resname\<close> the run differs from the run with the value \<^verbatim>\<open>box\<close>: the
  value is read as the flag, the set of names becomes empty and no record is printed.
\<close>

theorem system_value_read_as_a_flag:
  "out (run (demo_env [''ALA'', ''GLU'', ''AS4'', ''TYR''])
            [''cpinutil.py'', ''-p'', ''a.top'', ''-igb'', ''5'', ''-system'', ''box''])
   \<noteq> out (run (demo_env [''ALA'', ''GLU'', ''AS4'', ''TYR''])
            [''cpinutil.py'', ''-p'', ''a.top'', ''-igb'', ''5'', ''-system'', ''-resname''])"
  by code_simp

section \<open>Scenario A\<close>

lemma scan_of_four_residues:
  "scan_from 1 [''ALA'', ''GLU'', ''AS4'', ''TYR''] titratable = [(3, ''AS4''), (4, ''TYR'')]"
  by code_simp

lemma py_int_5: "py_int ''5'' = Some 5"
  by code_simp

lemma parse_topology_and_igb:
  assumes "path \<notin> set option_flags"
  shows "parse_args [prog, ''-p'', path, ''-igb'', ''5''] = Inr (init_opts\<lparr>prmtop := path, igb := ''5''\<rparr>)"
proof -
  have a: "arg_step ''-p'' (path # rest) st = Inr (st\<lparr>prmtop := path\<rparr>)" for rest st
    by (simp add: arg_step_def)
  have b: "arg_step ''-igb'' (''5'' # rest) st = Inr (st\<lparr>igb := ''5''\<rparr>)" for rest st
    by (simp add: arg_step_def)
  have c: "arg_step ''5'' rest st = Inr st" for rest st
    by (simp add: arg_step_def)
  show ?thesis
    by (simp add: parse_args_def a b c arg_step_no_flag[OF assms])
qed

text \<open>
  Claim C8. The topology has the residues ALA, GLU, AS4, TYR; the command line names the
  topology and igb = 5 and nothing else. The selector returns the numbers 3 and 4, with the
  names AS4 and TYR; the deduplicated names are AS4, TYR; and whenever the run completes
  (the topology file exists, the reference table knows both names), the record ends with the
  line \<^verbatim>\<open> TRESCNT=2,\<close> and the closing line.
\<close>

theorem scenario_A:
  assumes "path \<notin> set option_flags"
      and "residue_labels e path = [''ALA'', ''GLU'', ''AS4'', ''TYR'']"
      and "status (run e [prog, ''-p'', path, ''-igb'', ''5'']) = Completed"
  shows "select_residues path (residue_labels e path) (titrate_residues init_opts) [] []
           = Inr [(3, ''AS4''), (4, ''TYR'')] \<and>
         dedup_names [(3, ''AS4''), (4, ''TYR'')] = [''AS4'', ''TYR''] \<and>
         (\<exists>ls. out (run e [prog, ''-p'', path, ''-igb'', ''5''])
                 = ''&CNSTPH'' # ls @ ['' TRESCNT=2,'', ''/''])"
proof -
  let ?st = "init_opts\<lparr>prmtop := path, igb := ''5''\<rparr>"
  let ?sel = "[(3 :: int, ''AS4''), (4, ''TYR'')]"
  have ti: "titrate_residues init_opts = titratable" by (simp add: init_opts_def)
  have sel: "select_residues path (residue_labels e path) (titrate_residues init_opts) [] []
           = Inr ?sel"
    unfolding select_residues_def assms(2) ti scan_of_four_residues by simp
  have dd: "dedup_names ?sel = [''AS4'', ''TYR'']" by code_simp
  have tr: "trescnt_line ?sel = '' TRESCNT=2,''" by code_simp
  have h: "\<not> startswith ''-p'' ''-h''" "\<not> startswith ''-p'' ''--h''"
    by (simp_all add: startswith_def)
  have r: "run e [prog, ''-p'', path, ''-igb'', ''5''] = finish e ?st"
    by (simp add: run_def parse_topology_and_igb[OF assms(1)] h)
  have cv: "convert e ?st ''5'' =
     Inr \<lparr>igb_n = 5, minpKa_f = Fin (- 100), maxpKa_f = Fin 100, resnums_n = [],
          notresnums_n = [], states_n = []\<rparr>"
    by (simp add: convert_def init_opts_def to_float_def py_int_5)
  from assms(3) r have "\<not> shape_halted (finish e ?st)"
    using shape_halted_not_completed by auto
  with finish_cases[of e ?st] obtain p s sts where
    f: "convert e ?st (if igb ?st = '' '' then ''5'' else igb ?st) = Inr p"
       "select_residues (prmtop ?st) (residue_labels e (prmtop ?st)) (titrate_residues ?st)
         (resnums_n p) (notresnums_n p) = Inr s"
       "finish e ?st = emit (residue_pointers e (prmtop ?st)) (dedup_names s)
                      (map (\<lambda>nm. getData e nm (igb_n p)) (dedup_names s)) s sts
                      (if igb ?st = '' '' \<and> \<not> ignore_warn ?st then [msg_igb] else [])"
    by blast
  from f(1) cv have p: "resnums_n p = []" "notresnums_n p = []" by auto
  from f(2) p sel have s: "s = ?sel" by simp
  from assms(3) r f(3) emit_completed obtain ls where
    "out (finish e ?st) = ''&CNSTPH'' # ls @ [trescnt_line s, ''/'']"
    by metis
  with r s tr have "\<exists>ls. out (run e [prog, ''-p'', path, ''-igb'', ''5''])
                 = ''&CNSTPH'' # ls @ ['' TRESCNT=2,'', ''/'']" by simp
  with sel dd show ?thesis by blast
qed

theorem scenario_A_witness:
  "''a.top'' \<notin> set option_flags \<and>
   residue_labels (demo_env [''ALA'', ''GLU'', ''AS4'', ''TYR'']) ''a.top''
     = [''ALA'', ''GLU'', ''AS4'', ''TYR''] \<and>
   status (run (demo_env [''ALA'', ''GLU'', ''AS4'', ''TYR''])
              [''cpinutil.py'', ''-p'', ''a.top'', ''-igb'', ''5'']) = Completed \<and>
   (\<exists>ls. out (run (demo_env [''ALA'', ''GLU'', ''AS4'', ''TYR''])
                   [''cpinutil.py'', ''-p'', ''a.top'', ''-igb'', ''5''])
           = ''&CNSTPH'' # ls @ ['' TRESCNT=2,'', ''/''])"
proof -
  have a: "''a.top'' \<notin> set option_flags" by (simp add: option_flags_def)
  have b: "residue_labels (demo_env [''ALA'', ''GLU'', ''AS4'', ''TYR'']) ''a.top''
     = [''ALA'', ''GLU'', ''AS4'', ''TYR'']" by (simp add: demo_env_def)
  have c: "status (run (demo_env [''ALA'', ''GLU'', ''AS4'', ''TYR''])
              [''cpinutil.py'', ''-p'', ''a.top'', ''-igb'', ''5'']) = Completed"
    by code_simp
  from scenario_A[OF a b c] a b c show ?thesis by blast
qed

section \<open>Runs on concrete inputs\<close>

text \<open>
  Claim C1. The command line gives the bounds 5.0 and 11.0. The first built-in pKa, 4.0, is
  below the lower bound, and the script then evaluates \<^verbatim>\<open>4.0 in titrate_residues\<close>, a float
  against a string: the run ends in an uncaught TypeError, nothing is removed from the set of
  names and nothing is printed.
\<close>

theorem pka_range_5_11_raises_TypeError:
  "run (demo_env [''ALA'', ''GLU'', ''AS4'', ''TYR''])
       [''cpinutil.py'', ''-p'', ''a.top'', ''-igb'', ''5'', ''-minpKa'', ''5.0'', ''-maxpKa'', ''11.0'']
     = \<lparr>out = [], err = [], status = Uncaught TypeError\<rparr>"
  by code_simp

text \<open>
  Claim C3. The include list holds the number 0 and the last residue of the topology has a
  titratable name. The only test on the number is \<^verbatim>\<open>resnums[x] > len(prmtop_residues)\<close>;
  \<^verbatim>\<open>prmtop_residues[-1]\<close> is the last residue, so 0 is selected and the run completes with a
  record for a residue number 0.
\<close>

theorem resnum_zero_is_selected:
  "select_listed ''a.top'' [''ALA'', ''AS4''] titratable [0] = Inr [(0, ''AS4'')] \<and>
   status (run (demo_env [''ALA'', ''AS4''])
               [''cpinutil.py'', ''-p'', ''a.top'', ''-igb'', ''5'', ''-resnum'', ''0'']) = Completed \<and>
   out (run (demo_env [''ALA'', ''AS4''])
            [''cpinutil.py'', ''-p'', ''a.top'', ''-igb'', ''5'', ''-resnum'', ''0'']) ! 3
     = resname_prefix @ [quote] @ ''Residue: AS4 0'' @ [quote] @ '',''"
  by code_simp

text \<open>
  Claim C4. The topology has one residue, titratable, and the exclude list removes it. The
  test for an empty selection (line 242) runs before the exclude list is applied (line 248):
  the run completes and prints a record for no residue, with TRESCNT=0.
\<close>

theorem excluding_every_residue_completes:
  "select_residues ''a.top'' [''AS4''] titratable [] [1] = Inr [] \<and>
   status (run (demo_env [''AS4''])
               [''cpinutil.py'', ''-p'', ''a.top'', ''-igb'', ''5'', ''-notresnum'', ''1'']) = Completed \<and>
   out (run (demo_env [''AS4''])
            [''cpinutil.py'', ''-p'', ''a.top'', ''-igb'', ''5'', ''-notresnum'', ''1''])
     = [''&CNSTPH'', '' CHRGDAT='', '' PROTCNT='', resname_prefix, '' RESSTATE='', '' '',
        '' STATENE='', '' TRESCNT=0,'', ''/'']"
  by code_simp

end
